theory Spec2Isabelle
  imports Main "HOL-Library.Sublist" "HOL-Library.Char_ord" "HOL-Library.List_Lexorder"
begin

section \<open>Errors and JSON values\<close>

text \<open>
  The two error codes \<open>UpdateConfig.ts\<close> throws with, and \<open>ZWaveError\<close> as the pair of
  message and code. An error caught from a library call is represented by its message,
  which is all that \<open>getErrorMessage\<close> reads from it.
\<close>

datatype ZWaveErrorCodes = Config_Update_RegistryError | Config_Update_InstallFailed

datatype ZWaveError = ZWaveError string ZWaveErrorCodes

definition getErrorMessage :: "string \<Rightarrow> string" where
  "getErrorMessage e = e"

datatype json =
    JNull
  | JBool bool
  | JNumber int
  | JString string
  | JArray "json list"
  | JObject "(string \<times> json) list"

text \<open>
  Optional chaining \<open>x?.k\<close>: \<open>None\<close> is \<open>undefined\<close>. Only a plain object has an own
  property \<open>dist\<close> or \<open>tarball\<close>.
\<close>

fun getProp :: "json option \<Rightarrow> string \<Rightarrow> json option" where
  "getProp (Some (JObject kvs)) k = map_of kvs k"
| "getProp _ k = None"

text \<open>\<open>typeof url !== "string"\<close> on \<open>registryInfo?.dist?.tarball\<close>.\<close>

definition tarballUrl :: "json \<Rightarrow> string option" where
  "tarballUrl registryInfo =
     (case getProp (getProp (Some registryInfo) ''dist'') ''tarball'' of
        Some (JString url) \<Rightarrow> Some url
      | _ \<Rightarrow> None)"

section \<open>Paths\<close>

text \<open>
  Paths are strings, as in the source. \<open>path.join\<close> is only applied to a directory
  path and one fixed segment, so it is modelled as concatenation with a separator.
\<close>

definition pathJoin :: "string \<Rightarrow> string \<Rightarrow> string" where
  "pathJoin dir name = dir @ ''/'' @ name"

text \<open>\<open>under d p\<close>: \<open>p\<close> is the directory \<open>d\<close> itself or lies inside it.\<close>

definition under :: "string \<Rightarrow> string \<Rightarrow> bool" where
  "under d p \<longleftrightarrow> p = d \<or> prefix (d @ ''/'') p"

text \<open>The path of \<open>p\<close> relative to the directory \<open>d\<close>, for a path strictly inside it.\<close>

definition relativeTo :: "string \<Rightarrow> string \<Rightarrow> string option" where
  "relativeTo d p = (if prefix (d @ ''/'') p then Some (drop (length d + 1) p) else None)"

definition endsWith :: "string \<Rightarrow> string \<Rightarrow> bool" where
  "endsWith s suf \<longleftrightarrow> suffix suf s"

definition startsWith :: "string \<Rightarrow> string \<Rightarrow> bool" where
  "startsWith s pre \<longleftrightarrow> prefix pre s"

text \<open>
  \<open>normalizeToUnixStyle\<close> (lines 171-176): drop every colon, turn every backslash into
  a slash, and put a slash in front unless there is one.
\<close>

definition normalizeToUnixStyle :: "string \<Rightarrow> string" where
  "normalizeToUnixStyle path0 =
     (let path1 = filter (\<lambda>c. c \<noteq> CHR '':'') path0;
          path2 = map (\<lambda>c. if c = CHR 0x5C then CHR ''/'' else c) path1
      in if \<not> startsWith path2 ''/'' then ''/'' @ path2 else path2)"


section \<open>The disk, the lock files and the environment\<close>

datatype content = Text string | Tarball "(string \<times> string) list" | Truncated

datatype node = Dir | File content

type_synonym disk = "string \<rightharpoonup> node"

text \<open>
  One constructor per call of \<open>installConfigUpdate\<close> into a library or into the injected
  \<open>FileSystem\<close>. The environment decides, per call site, whether the call fails and with
  which message.
\<close>

datatype site =
    RegistryGet
  | LockfileLock
  | LockfileCheck
  | LockfileUnlock
  | Mkdtemp
  | OpenTarFile
  | DeleteExtractedDir
  | EnsureExtractedDir
  | TarExtract
  | DeleteConfigDir
  | EnsureConfigDir
  | CopyFiles
  | WriteVersionFile
  | DeleteTmpDir

text \<open>
  The state the installation acts on: the files and directories on disk, the lock
  files currently held (by any process), and the trace of the calls made so far, each
  recorded when it is made, whether it then fails or not.
\<close>

record world =
  disk :: disk
  locks :: "string set"
  trace :: "site list"

definition logCall :: "site \<Rightarrow> world \<Rightarrow> world" where
  "logCall s w = w\<lparr>trace := trace w @ [s]\<rparr>"

text \<open>
  What happens on the streams of the download while the promise of lines 153-156 is
  pending: an \<open>error\<close> or \<open>end\<close> event of \<open>response\<close>, or an \<open>error\<close> event of the file
  write stream \<open>fstream\<close>.
\<close>

datatype stream_event = ResponseError string | ResponseEnd | FileStreamError string

text \<open>
  The environment of one call: the failure (if any) of each call site, the document the
  registry answers a request with, the system's temporary directory and the suffix
  \<open>mkdtemp\<close> picks, the artifact served at a URL, and the stream events of the download.
\<close>

record env =
  fault :: "site \<Rightarrow> string option"
  registryInfo :: "string \<Rightarrow> json"
  osTmpdir :: string
  mkdtempSuffix :: string
  download :: "string \<Rightarrow> content"
  streamEvents :: "stream_event list"

record external =
  configDir :: string
  cacheDir :: string

text \<open>A step either throws (\<open>Some message\<close>) or completes, and returns the new state.\<close>

type_synonym step = "world \<Rightarrow> string option \<times> world"

definition andThen :: "step \<Rightarrow> step \<Rightarrow> step" where
  "andThen f g w = (case f w of (Some e, w') \<Rightarrow> (Some e, w') | (None, w') \<Rightarrow> g w')"

text \<open>A call of the \<open>FileSystem\<close> at a site: the fault of that site, or the effect.\<close>

definition guarded :: "env \<Rightarrow> site \<Rightarrow> (disk \<Rightarrow> disk) \<Rightarrow> step" where
  "guarded E s effect w =
     (case fault E s of
        Some e \<Rightarrow> (Some e, logCall s w)
      | None \<Rightarrow> (None, logCall s (w\<lparr>disk := effect (disk w)\<rparr>)))"

subsection \<open>The filesystem capability\<close>

text \<open>
  Modelled from the spec: the primitives of the \<open>FileSystem\<close> binding and of
  \<open>@zwave-js/shared\<close> (\<open>deleteDir\<close>, \<open>ensureDir\<close>, \<open>writeTextFile\<close>,
  \<open>copyFilesRecursive\<close>), which are not among the sources. \<open>deleteDir\<close> is recursive and
  tolerant of non-existence; \<open>copyFilesRecursive src dst filter\<close> copies every file
  inside \<open>src\<close> whose path passes the filter to the same relative path inside \<open>dst\<close>.
  A call that fails is taken to fail before it changes anything; directories created
  on the way to a copied file are not recorded.
\<close>

definition deleteDir :: "string \<Rightarrow> disk \<Rightarrow> disk" where
  "deleteDir d fs = (\<lambda>p. if under d p then None else fs p)"

definition ensureDir :: "string \<Rightarrow> disk \<Rightarrow> disk" where
  "ensureDir d fs = (if fs d = None then fs(d \<mapsto> Dir) else fs)"

definition writeTextFile :: "string \<Rightarrow> string \<Rightarrow> disk \<Rightarrow> disk" where
  "writeTextFile p txt fs = fs(p \<mapsto> File (Text txt))"

definition copyFilesRecursive :: "string \<Rightarrow> string \<Rightarrow> (string \<Rightarrow> bool) \<Rightarrow> disk \<Rightarrow> disk" where
  "copyFilesRecursive src dst predicate fs =
     (\<lambda>p. case relativeTo dst p of
             None \<Rightarrow> fs p
           | Some rel \<Rightarrow>
               (case fs (pathJoin src rel) of
                  Some (File c) \<Rightarrow> if predicate (pathJoin src rel) then Some (File c) else fs p
                | _ \<Rightarrow> fs p))"

subsection \<open>The archive extraction primitive\<close>

text \<open>
  \<open>tar --strip-components=1 -xzf archive -C dest\<close>. A member name loses its first
  component; a member with nothing left after that is skipped; of two members with the
  same name the later one wins. The command fails when \<open>archive\<close> is not a readable
  archive or \<open>dest\<close> is not a directory.
\<close>

definition stripComponent :: "string \<Rightarrow> string option" where
  "stripComponent name =
     (case dropWhile (\<lambda>c. c \<noteq> CHR ''/'') name of
        [] \<Rightarrow> None
      | _ # rest \<Rightarrow> if rest = [] then None else Some rest)"

definition stripped :: "(string \<times> string) list \<Rightarrow> (string \<times> string) list" where
  "stripped members =
     List.map_filter (\<lambda>(name, c). map_option (\<lambda>rel. (rel, c)) (stripComponent name)) members"

definition archiveMember :: "(string \<times> string) list \<Rightarrow> string \<Rightarrow> string option" where
  "archiveMember members rel = map_of (rev (stripped members)) rel"

definition untar :: "(string \<times> string) list \<Rightarrow> string \<Rightarrow> disk \<Rightarrow> disk" where
  "untar members dest fs =
     (\<lambda>p. case relativeTo dest p of
             None \<Rightarrow> fs p
           | Some rel \<Rightarrow>
               (case archiveMember members rel of
                  Some c \<Rightarrow> Some (File (Text c))
                | None \<Rightarrow> fs p))"

definition execaTar :: "env \<Rightarrow> string \<Rightarrow> string \<Rightarrow> step" where
  "execaTar E archive dest w =
     (case fault E TarExtract of
        Some e \<Rightarrow> (Some e, logCall TarExtract w)
      | None \<Rightarrow>
          (case disk w archive of
             Some (File (Tarball members)) \<Rightarrow>
               (if disk w dest = Some Dir
                then (None, logCall TarExtract (w\<lparr>disk := untar members dest (disk w)\<rparr>))
                else (Some ''tar: cannot change to the target directory'', logCall TarExtract w))
           | _ \<Rightarrow> (Some ''tar: cannot read the archive'', logCall TarExtract w)))"

section \<open>The lock\<close>

text \<open>
  \<open>lockfile.lock\<close> (lines 103-109) with the lock file named by the option
  \<open>lockfilePath\<close>: it fails when that lock is held, or for any other cause the
  environment names.
\<close>

definition lockfileLock :: "env \<Rightarrow> string \<Rightarrow> world \<Rightarrow> string + world" where
  "lockfileLock E lockfile w =
     (if lockfile \<in> locks w then Inl ''Lock file is already being held''
      else case fault E LockfileLock of
             Some e \<Rightarrow> Inl e
           | None \<Rightarrow> Inr (w\<lparr>locks := insert lockfile (locks w)\<rparr>))"

text \<open>
  \<open>freeLock\<close> (lines 117-125): unlock if \<open>lockfile.check\<close> says the lock is held; an
  error of \<open>check\<close> or of \<open>unlock\<close> is caught and dropped.
\<close>

definition freeLock :: "env \<Rightarrow> string \<Rightarrow> world \<Rightarrow> world" where
  "freeLock E lockfile w =
     (let w1 = logCall LockfileCheck w
      in case fault E LockfileCheck of
           Some e \<Rightarrow> w1
         | None \<Rightarrow>
             if lockfile \<in> locks w1
             then (case fault E LockfileUnlock of
                     Some e \<Rightarrow> logCall LockfileUnlock w1
                   | None \<Rightarrow> logCall LockfileUnlock (w1\<lparr>locks := locks w1 - {lockfile}\<rparr>))
             else w1)"

section \<open>The workspace\<close>

text \<open>
  \<open>fsp.mkdtemp\<close> (lines 129-132): the new directory, named by the given prefix and
  the suffix the system picks, or the error.
\<close>

definition tmpDirOf :: "env \<Rightarrow> string" where
  "tmpDirOf E = pathJoin (osTmpdir E) ''zjs-config-update-'' @ mkdtempSuffix E"

definition mkdtemp :: "env \<Rightarrow> world \<Rightarrow> string + (string \<times> world)" where
  "mkdtemp E w =
     (case fault E Mkdtemp of
        Some e \<Rightarrow> Inl e
      | None \<Rightarrow> Inr (tmpDirOf E, w\<lparr>disk := (disk w)(tmpDirOf E \<mapsto> Dir)\<rparr>))"

text \<open>
  The promise of lines 153-156 has listeners on \<open>response\<close> only: the first \<open>error\<close>
  event of \<open>response\<close> rejects it, the first \<open>end\<close> event resolves it, and an \<open>error\<close>
  event of \<open>fstream\<close> does neither. \<open>None\<close>: the promise never settles. The flag
  tells whether the file was written without an error up to the end of the response.
\<close>

fun awaitResponse :: "bool \<Rightarrow> stream_event list \<Rightarrow> (string + bool) option" where
  "awaitResponse intact [] = None"
| "awaitResponse intact (ResponseError e # es) = Some (Inl e)"
| "awaitResponse intact (ResponseEnd # es) = Some (Inr intact)"
| "awaitResponse intact (FileStreamError e # es) = awaitResponse False es"

text \<open>
  The download (lines 147-156): open the file for writing, which creates or empties it,
  pipe the response into it and wait for the promise.
\<close>

definition downloadTarball :: "env \<Rightarrow> string \<Rightarrow> string \<Rightarrow> world \<Rightarrow> (string option \<times> world) option" where
  "downloadTarball E url tarFilename w =
     (case fault E OpenTarFile of
        Some e \<Rightarrow> Some (Some e, w)
      | None \<Rightarrow>
          (let w1 = w\<lparr>disk := (disk w)(tarFilename \<mapsto> File Truncated)\<rparr>
           in case awaitResponse True (streamEvents E) of
                None \<Rightarrow> None
              | Some (Inl e) \<Rightarrow> Some (Some e, w1)
              | Some (Inr intact) \<Rightarrow>
                  Some (None,
                    if intact then w1\<lparr>disk := (disk w1)(tarFilename \<mapsto> File (download E url))\<rparr>
                    else w1)))"

section \<open>installConfigUpdate\<close>

text \<open>
  The \<open>try\<close> block of lines 179-204, in its two parts: extract the tarball in the
  temporary folder (lines 181-189), then overwrite the files in the external config
  directory (lines 192-204).
\<close>

definition extractTarball :: "env \<Rightarrow> string \<Rightarrow> string \<Rightarrow> step" where
  "extractTarball E tarFilename extractedDir =
     andThen (guarded E DeleteExtractedDir (deleteDir extractedDir))
    (andThen (guarded E EnsureExtractedDir (ensureDir extractedDir))
             (execaTar E (normalizeToUnixStyle tarFilename) (normalizeToUnixStyle extractedDir)))"

definition overwriteConfig :: "env \<Rightarrow> string \<Rightarrow> external \<Rightarrow> string \<Rightarrow> step" where
  "overwriteConfig E newVersion ext extractedDir =
     andThen (guarded E DeleteConfigDir (deleteDir (configDir ext)))
    (andThen (guarded E EnsureConfigDir (ensureDir (configDir ext)))
    (andThen (guarded E CopyFiles
                (copyFilesRecursive (pathJoin extractedDir ''config'') (configDir ext)
                   (\<lambda>src. endsWith src ''.json'')))
             (guarded E WriteVersionFile
                (writeTextFile (pathJoin (configDir ext) ''version'') newVersion))))"

definition extractAndReplace :: "env \<Rightarrow> string \<Rightarrow> external \<Rightarrow> string \<Rightarrow> string \<Rightarrow> step" where
  "extractAndReplace E newVersion ext tarFilename extractedDir =
     andThen (extractTarball E tarFilename extractedDir)
             (overwriteConfig E newVersion ext extractedDir)"

text \<open>The address of the registry document of one version (line 81).\<close>

definition versionInfoUrl :: "string \<Rightarrow> string" where
  "versionInfoUrl newVersion = ''https://registry.npmjs.org/@zwave-js/config/'' @ newVersion"

text \<open>The paths the function derives: lines 100, 146 and 178.\<close>

definition lockfileOf :: "external \<Rightarrow> string" where
  "lockfileOf ext = pathJoin (cacheDir ext) ''config-update.lock''"

definition tarFilenameOf :: "string \<Rightarrow> string" where
  "tarFilenameOf tmpDir = pathJoin tmpDir ''zjs-config-update.tgz''"

definition extractedDirOf :: "string \<Rightarrow> string" where
  "extractedDirOf tmpDir = pathJoin tmpDir ''extracted''"

text \<open>
  \<open>installConfigUpdate\<close> (lines 68-218). \<open>None\<close>: the call never returns. Otherwise the
  error thrown (\<open>Inl\<close>) or the normal return (\<open>Inr\<close>), and the state left behind.
\<close>

definition installConfigUpdate ::
  "env \<Rightarrow> string \<Rightarrow> external \<Rightarrow> world \<Rightarrow> ((ZWaveError + unit) \<times> world) option" where
  "installConfigUpdate E newVersion ext w =
     (case fault E RegistryGet of
        Some e \<Rightarrow>
          Some (Inl (ZWaveError
            ''Config update failed: Could not fetch package info from npm registry!''
            Config_Update_InstallFailed), logCall RegistryGet w)
      | None \<Rightarrow>
     (case tarballUrl (registryInfo E (versionInfoUrl newVersion)) of
        None \<Rightarrow>
          Some (Inl (ZWaveError
            ''Config update failed: Could not fetch package tarball URL from npm registry!''
            Config_Update_InstallFailed), logCall RegistryGet w)
      | Some url \<Rightarrow>
     (case lockfileLock E (lockfileOf ext) (logCall LockfileLock (logCall RegistryGet w)) of
        Inl e \<Rightarrow>
          Some (Inl (ZWaveError
            ''Config update failed: Another installation is already in progress!''
            Config_Update_InstallFailed), logCall LockfileLock (logCall RegistryGet w))
      | Inr w1 \<Rightarrow>
     (case mkdtemp E (logCall Mkdtemp w1) of
        Inl e \<Rightarrow>
          Some (Inl (ZWaveError
            (''Config update failed: Could not create temporary directory. Reason: ''
               @ getErrorMessage e)
            Config_Update_InstallFailed), freeLock E (lockfileOf ext) (logCall Mkdtemp w1))
      | Inr (tmpDir, w2) \<Rightarrow>
     (case downloadTarball E url (tarFilenameOf tmpDir) (logCall OpenTarFile w2) of
        None \<Rightarrow> None
      | Some (Some e, w3) \<Rightarrow>
          Some (Inl (ZWaveError
            (''Config update failed: Could not download tarball. Reason: ''
               @ getErrorMessage e)
            Config_Update_InstallFailed), freeLock E (lockfileOf ext) w3)
      | Some (None, w3) \<Rightarrow>
     (case extractAndReplace E newVersion ext (tarFilenameOf tmpDir) (extractedDirOf tmpDir) w3 of
        (Some e, w4) \<Rightarrow>
          Some (Inl (ZWaveError
            ''Config update failed: Could not extract tarball''
            Config_Update_InstallFailed), freeLock E (lockfileOf ext) w4)
      | (None, w4) \<Rightarrow>
          Some (Inr (),
            freeLock E (lockfileOf ext)
              (snd (guarded E DeleteTmpDir (deleteDir tmpDir) w4)))))))))"

section \<open>Notions used in the statements\<close>


text \<open>A step that leaves the locks alone and makes no call of \<open>lockfile.check\<close> or \<open>unlock\<close>.\<close>

definition quiet :: "step \<Rightarrow> bool" where
  "quiet f \<longleftrightarrow> (\<forall>w r w'. f w = (r, w') \<longrightarrow>
      locks w' = locks w \<and>
      (\<exists>ts. trace w' = trace w @ ts \<and> LockfileCheck \<notin> set ts \<and> LockfileUnlock \<notin> set ts))"

text \<open>The call sites inside the \<open>try\<close> block of lines 179-204.\<close>

definition extractSites :: "site set" where
  "extractSites = {DeleteExtractedDir, EnsureExtractedDir, TarExtract, DeleteConfigDir,
                   EnsureConfigDir, CopyFiles, WriteVersionFile}"

section \<open>A concrete installation\<close>

text \<open>
  The inputs used to instantiate the theorems: a registry document for version 1.0.1,
  an archive with two configuration files and two other files, an external
  configuration directory that holds one file of the previous version, and
  environments that differ in the faults injected and in the stream events.
\<close>

definition exampleDoc :: json where
  "exampleDoc = JObject [(''name'', JString ''@zwave-js/config''),
      (''dist'', JObject [(''tarball'', JString ''https://registry.npmjs.org/@zwave-js/config/-/config-1.0.1.tgz'')])]"

definition exampleArchive :: "(string \<times> string) list" where
  "exampleArchive = [(''package/package.json'', ''P''), (''package/config/a.json'', ''A''),
                     (''package/config/devices/b.json'', ''B''), (''package/config/readme.md'', ''R'')]"

definition exampleEnv :: "(site \<Rightarrow> string option) \<Rightarrow> stream_event list \<Rightarrow> env" where
  "exampleEnv f evs = \<lparr> fault = f, registryInfo = (\<lambda>u. exampleDoc),
      osTmpdir = ''/tmp'', mkdtempSuffix = ''AbC123'',
      download = (\<lambda>u. Tarball exampleArchive), streamEvents = evs \<rparr>"

definition noFault :: "site \<Rightarrow> string option" where
  "noFault s = None"

definition faultAt :: "site \<Rightarrow> string \<Rightarrow> site \<Rightarrow> string option" where
  "faultAt s0 e s = (if s = s0 then Some e else None)"

definition envOk :: env where
  "envOk = exampleEnv noFault [ResponseEnd]"

definition envCopyFails :: env where
  "envCopyFails = exampleEnv (faultAt CopyFiles ''EIO: i/o error, copyfile'') [ResponseEnd]"

definition envLockFails :: env where
  "envLockFails =
     exampleEnv (faultAt LockfileLock ''ENOENT: no such file or directory, lstat /data/cache'')
       [ResponseEnd]"

definition envTransportError :: env where
  "envTransportError = exampleEnv noFault [ResponseError ''read ECONNRESET'']"

definition envWriteError :: env where
  "envWriteError = exampleEnv noFault [FileStreamError ''ENOSPC: no space left on device, write'']"

definition envWriteErrorThenEnd :: env where
  "envWriteErrorThenEnd =
     exampleEnv noFault [FileStreamError ''ENOSPC: no space left on device, write'', ResponseEnd]"

definition envMkdtempAndUnlockFail :: env where
  "envMkdtempAndUnlockFail =
     exampleEnv (\<lambda>s. if s = Mkdtemp then Some ''ENOSPC: no space left on device, mkdtemp''
                      else if s = LockfileUnlock then Some ''EPERM: operation not permitted, rmdir''
                      else None)
       [ResponseEnd]"

definition exampleExt :: external where
  "exampleExt = \<lparr> configDir = ''/data/cfg'', cacheDir = ''/data/cache'' \<rparr>"

definition exampleWorld :: world where
  "exampleWorld = \<lparr> disk = [''/data/cfg/old.json'' \<mapsto> File (Text ''O'')], locks = {}, trace = [] \<rparr>"

section \<open>Semantic versions\<close>

text \<open>
  Modelled from the spec: the functions \<open>valid\<close>, \<open>inc\<close> and \<open>maxSatisfying\<close> of the
  package \<open>semver\<close> that \<open>UpdateConfig.ts\<close> imports, which are not among the sources.
  The spec asks for valid semantic versions, the next patch-level stable version and the
  maximum with prereleases included; what a valid version is, how two versions compare
  and how the range text is read follow the package (version 7, strict mode). Strings
  are sequences of code units below 256.
\<close>

text \<open>
  The character classes of the package's patterns: \<open>\\d\<close>, \<open>[a-zA-Z0-9-]\<close>, the
  characters a version can contain at all, and the white space that \<open>trim\<close> removes.
\<close>

definition isDigit :: "char \<Rightarrow> bool" where
  "isDigit c \<longleftrightarrow> c \<in> set ''0123456789''"

definition isLetterDashNumber :: "char \<Rightarrow> bool" where
  "isLetterDashNumber c \<longleftrightarrow>
     c \<in> set ''0123456789abcdefghijklmnopqrstuvwxyzABCDEFGHIJKLMNOPQRSTUVWXYZ-''"

definition isVersionChar :: "char \<Rightarrow> bool" where
  "isVersionChar c \<longleftrightarrow> isLetterDashNumber c \<or> c = CHR ''.'' \<or> c = CHR ''+''"

definition isWhitespace :: "char \<Rightarrow> bool" where
  "isWhitespace c \<longleftrightarrow> c \<in> {CHR 0x09, CHR 0x0A, CHR 0x0B, CHR 0x0C, CHR 0x0D, CHR 0x20, CHR 0xA0}"

definition trim :: "string \<Rightarrow> string" where
  "trim s = rev (dropWhile isWhitespace (rev (dropWhile isWhitespace s)))"

text \<open>
  \<open>String.prototype.split\<close> with a one-character separator, and \<open>Array.prototype.join\<close>.
\<close>

fun splitOn :: "char \<Rightarrow> string \<Rightarrow> string list" where
  "splitOn c [] = [[]]"
| "splitOn c (x # xs) =
     (if x = c then [] # splitOn c xs
      else (case splitOn c xs of p # ps \<Rightarrow> (x # p) # ps | [] \<Rightarrow> [[x]]))"

fun joinWith :: "string \<Rightarrow> string list \<Rightarrow> string" where
  "joinWith sep [] = []"
| "joinWith sep [x] = x"
| "joinWith sep (x # y # ys) = x @ sep @ joinWith sep (y # ys)"

text \<open>
  The text before the first occurrence of a character, and the text after it if there
  is one.
\<close>

definition splitFirst :: "char \<Rightarrow> string \<Rightarrow> string \<times> string option" where
  "splitFirst c s =
     (takeWhile (\<lambda>x. x \<noteq> c) s,
      case dropWhile (\<lambda>x. x \<noteq> c) s of [] \<Rightarrow> None | _ # rest \<Rightarrow> Some rest)"

text \<open>
  Decimal numerals: the number a string of digits denotes, and the digits of a number.
\<close>

definition digitVal :: "char \<Rightarrow> nat" where
  "digitVal c = of_char c - 48"

definition decimal :: "string \<Rightarrow> nat" where
  "decimal s = foldl (\<lambda>n c. 10 * n + digitVal c) 0 s"

definition digitChar :: "nat \<Rightarrow> char" where
  "digitChar d = ''0123456789'' ! d"

fun showNat :: "nat \<Rightarrow> string" where
  "showNat n = (if n < 10 then [digitChar n] else showNat (n div 10) @ [digitChar (n mod 10)])"

declare showNat.simps [simp del]

text \<open>
  The constants of the package. \<open>toNumber\<close> is the conversion of a string of digits to
  a JavaScript number: exact below \<open>2^53\<close>, otherwise the nearest double, ties to even
  (no version is long enough to reach infinity).
\<close>

definition MAX_SAFE_INTEGER :: nat where
  "MAX_SAFE_INTEGER = 9007199254740991"

definition MAX_LENGTH :: nat where
  "MAX_LENGTH = 256"

fun bitlen :: "nat \<Rightarrow> nat" where
  "bitlen n = (if n = 0 then 0 else Suc (bitlen (n div 2)))"

declare bitlen.simps [simp del]

definition toNumber :: "nat \<Rightarrow> nat" where
  "toNumber n =
     (if n < 2 ^ 53 then n
      else let k = bitlen n - 53; q = n div 2 ^ k; r = n mod 2 ^ k; h = 2 ^ (k - 1)
           in (if h < r \<or> (r = h \<and> odd q) then q + 1 else q) * 2 ^ k)"

text \<open>
  The identifiers of the version pattern: \<open>0|[1-9]\\d*\<close>, \<open>\\d*[a-zA-Z-][a-zA-Z0-9-]*\<close>
  and \<open>[a-zA-Z0-9-]+\<close>.
\<close>

definition isNumericIdentifier :: "string \<Rightarrow> bool" where
  "isNumericIdentifier s \<longleftrightarrow> s \<noteq> [] \<and> list_all isDigit s \<and> (s = ''0'' \<or> hd s \<noteq> CHR ''0'')"

definition isNonNumericIdentifier :: "string \<Rightarrow> bool" where
  "isNonNumericIdentifier s \<longleftrightarrow> list_all isLetterDashNumber s \<and> \<not> list_all isDigit s"

definition isBuildIdentifier :: "string \<Rightarrow> bool" where
  "isBuildIdentifier s \<longleftrightarrow> s \<noteq> [] \<and> list_all isLetterDashNumber s"

text \<open>
  A parsed version. A prerelease identifier is a number when it is numeric and below
  \<open>MAX_SAFE_INTEGER\<close>, and a string otherwise.
\<close>

datatype ident = INum nat | IStr string

record semver =
  major :: nat
  minor :: nat
  patch :: nat
  prerelease :: "ident list"
  build :: "string list"

text \<open>
  The constructor of \<open>SemVer\<close>: the text is at most \<open>MAX_LENGTH\<close> long; trimmed, it is an
  optional \<open>v\<close>, three numeric identifiers separated by dots, an optional prerelease
  after \<open>-\<close> and an optional build after \<open>+\<close>; major, minor and patch are at most
  \<open>MAX_SAFE_INTEGER\<close>. \<open>None\<close>: the constructor throws.
\<close>

definition parseNumber :: "string \<Rightarrow> nat option" where
  "parseNumber s =
     (if isNumericIdentifier s \<and> toNumber (decimal s) \<le> MAX_SAFE_INTEGER
      then Some (toNumber (decimal s)) else None)"

definition parsePrereleaseId :: "string \<Rightarrow> ident option" where
  "parsePrereleaseId s =
     (if isNumericIdentifier s
      then (if toNumber (decimal s) < MAX_SAFE_INTEGER then Some (INum (toNumber (decimal s)))
            else Some (IStr s))
      else if isNonNumericIdentifier s then Some (IStr s)
      else None)"

definition parsePrerelease :: "string option \<Rightarrow> ident list option" where
  "parsePrerelease p =
     (case p of None \<Rightarrow> Some [] | Some s \<Rightarrow> those (map parsePrereleaseId (splitOn CHR ''.'' s)))"

definition parseBuild :: "string option \<Rightarrow> string list option" where
  "parseBuild b =
     (case b of
        None \<Rightarrow> Some []
      | Some s \<Rightarrow> if list_all isBuildIdentifier (splitOn CHR ''.'' s)
                  then Some (splitOn CHR ''.'' s) else None)"

definition parseMain :: "string \<Rightarrow> (nat \<times> nat \<times> nat) option" where
  "parseMain s =
     (case map parseNumber (splitOn CHR ''.'' s) of
        [Some ma, Some mi, Some pa] \<Rightarrow> Some (ma, mi, pa)
      | _ \<Rightarrow> None)"

definition stripV :: "string \<Rightarrow> string" where
  "stripV t = (case t of c # r \<Rightarrow> if c = CHR ''v'' then r else t | [] \<Rightarrow> t)"

definition parseFull :: "string \<Rightarrow> semver option" where
  "parseFull t =
     (if \<not> list_all isVersionChar t then None
      else
        let plus = splitFirst CHR ''+'' (stripV t);
            dash = splitFirst CHR ''-'' (fst plus)
        in case parseMain (fst dash) of
             None \<Rightarrow> None
           | Some (ma, mi, pa) \<Rightarrow>
               (case parsePrerelease (snd dash) of
                  None \<Rightarrow> None
                | Some pre \<Rightarrow>
                    (case parseBuild (snd plus) of
                       None \<Rightarrow> None
                     | Some bld \<Rightarrow>
                         Some \<lparr>major = ma, minor = mi, patch = pa, prerelease = pre, build = bld\<rparr>)))"

definition parseSemVer :: "string \<Rightarrow> semver option" where
  "parseSemVer version =
     (if MAX_LENGTH < length version then None else parseFull (trim version))"

text \<open>
  \<open>SemVer.format\<close>, \<open>valid\<close>, and \<open>inc\<close> with release type \<open>patch\<close>: a version without
  prerelease gets the next patch number, a prerelease becomes its own stable version.
\<close>

definition identString :: "ident \<Rightarrow> string" where
  "identString i = (case i of INum n \<Rightarrow> showNat n | IStr s \<Rightarrow> s)"

definition formatVersion :: "semver \<Rightarrow> string" where
  "formatVersion v =
     showNat (major v) @ ''.'' @ showNat (minor v) @ ''.'' @ showNat (patch v)
       @ (if prerelease v = [] then [] else ''-'' @ joinWith ''.'' (map identString (prerelease v)))"

definition semverValid :: "string \<Rightarrow> string option" where
  "semverValid version = map_option formatVersion (parseSemVer version)"

definition incPatch :: "semver \<Rightarrow> semver" where
  "incPatch v = v\<lparr>patch := (if prerelease v = [] then patch v + 1 else patch v), prerelease := []\<rparr>"

definition semverInc :: "string \<Rightarrow> string option" where
  "semverInc version = map_option (\<lambda>v. formatVersion (incPatch v)) (parseSemVer version)"

subsection \<open>Comparison\<close>

text \<open>
  \<open>SemVer.compare\<close>: \<open>compareMain\<close>, then \<open>comparePre\<close>. \<open>comparePre\<close> walks the two lists
  and returns what \<open>compareIdentifiers\<close> says at the first position where the
  identifiers differ; two numeric identifiers are compared as numbers, a numeric one is
  below a non-numeric one, two non-numeric ones are compared as strings. The build does
  not take part.
\<close>

definition compareNumbers :: "nat \<Rightarrow> nat \<Rightarrow> int" where
  "compareNumbers a b = (if a = b then 0 else if a < b then - 1 else 1)"

definition isNumericString :: "ident \<Rightarrow> bool" where
  "isNumericString i = (case i of INum n \<Rightarrow> True | IStr s \<Rightarrow> s \<noteq> [] \<and> list_all isDigit s)"

definition identNumber :: "ident \<Rightarrow> nat" where
  "identNumber i = (case i of INum n \<Rightarrow> n | IStr s \<Rightarrow> toNumber (decimal s))"

definition compareIdentifiers :: "ident \<Rightarrow> ident \<Rightarrow> int" where
  "compareIdentifiers a b =
     (if isNumericString a \<and> isNumericString b
      then compareNumbers (identNumber a) (identNumber b)
      else if a = b then 0
      else if isNumericString a \<and> \<not> isNumericString b then - 1
      else if isNumericString b \<and> \<not> isNumericString a then 1
      else if identString a < identString b then - 1 else 1)"

definition compareMain :: "semver \<Rightarrow> semver \<Rightarrow> int" where
  "compareMain a b =
     (if compareNumbers (major a) (major b) \<noteq> 0 then compareNumbers (major a) (major b)
      else if compareNumbers (minor a) (minor b) \<noteq> 0 then compareNumbers (minor a) (minor b)
      else compareNumbers (patch a) (patch b))"

fun comparePreLists :: "ident list \<Rightarrow> ident list \<Rightarrow> int" where
  "comparePreLists [] [] = 0"
| "comparePreLists (a # as) [] = 1"
| "comparePreLists [] (b # bs) = - 1"
| "comparePreLists (a # as) (b # bs) =
     (if a = b then comparePreLists as bs else compareIdentifiers a b)"

definition comparePre :: "semver \<Rightarrow> semver \<Rightarrow> int" where
  "comparePre a b =
     (if prerelease a \<noteq> [] \<and> prerelease b = [] then - 1
      else if prerelease a = [] \<and> prerelease b \<noteq> [] then 1
      else if prerelease a = [] \<and> prerelease b = [] then 0
      else comparePreLists (prerelease a) (prerelease b))"

definition compare :: "semver \<Rightarrow> semver \<Rightarrow> int" where
  "compare a b = (if compareMain a b \<noteq> 0 then compareMain a b else comparePre a b)"

subsection \<open>Ranges\<close>

text \<open>
  The range text, restricted to the form this program builds: comparators separated by
  white space, each an operator (\<open><\<close>, \<open>>\<close>, \<open><=\<close>, \<open>>=\<close>, \<open>=\<close> or none) and a version, with
  white space allowed between the two. Every other text counts as an invalid range, as
  does for the package every text that ends in \<open><null\<close>.
\<close>

datatype operator = OpLt | OpLte | OpGt | OpGte | OpEq

definition splitOperator :: "string \<Rightarrow> operator \<times> string" where
  "splitOperator tok =
     (if prefix ''<='' tok then (OpLte, drop 2 tok)
      else if prefix ''>='' tok then (OpGte, drop 2 tok)
      else if prefix ''<'' tok then (OpLt, drop 1 tok)
      else if prefix ''>'' tok then (OpGt, drop 1 tok)
      else if prefix ''='' tok then (OpEq, drop 1 tok)
      else (OpEq, tok))"

definition parseComparator :: "string \<Rightarrow> (operator \<times> semver) option" where
  "parseComparator tok =
     (case splitOperator tok of (op, rest) \<Rightarrow> map_option (\<lambda>v. (op, v)) (parseSemVer rest))"

definition isOperator :: "string \<Rightarrow> bool" where
  "isOperator w \<longleftrightarrow> w \<in> {''<'', ''>'', ''<='', ''>='', ''=''}"

function splitWhitespace :: "string \<Rightarrow> string list" where
  "splitWhitespace s =
     (case dropWhile isWhitespace s of
        [] \<Rightarrow> []
      | c # r \<Rightarrow> takeWhile (\<lambda>x. \<not> isWhitespace x) (c # r)
                 # splitWhitespace (dropWhile (\<lambda>x. \<not> isWhitespace x) (c # r)))"
  by pat_completeness auto
termination
proof (relation "measure length")
  show "wf (measure length)" by simp
next
  fix s :: string and c r
  assume a: "dropWhile isWhitespace s = c # r"
  then have nw: "\<not> isWhitespace c" using hd_dropWhile[of isWhitespace s] by auto
  have "length (dropWhile (\<lambda>x. \<not> isWhitespace x) (c # r)) \<le> length r"
    using nw by (simp add: length_dropWhile_le)
  also have "\<dots> < length (dropWhile isWhitespace s)" using a by simp
  also have "\<dots> \<le> length s" by (rule length_dropWhile_le)
  finally show "(dropWhile (\<lambda>x. \<not> isWhitespace x) (c # r), s) \<in> measure length" by simp
qed

declare splitWhitespace.simps [simp del]

fun comparatorTrim :: "string list \<Rightarrow> string list" where
  "comparatorTrim [] = []"
| "comparatorTrim [w] = [w]"
| "comparatorTrim (w # w2 # ws) =
     (if isOperator w then (w @ w2) # comparatorTrim ws else w # comparatorTrim (w2 # ws))"

definition parseRange :: "string \<Rightarrow> (operator \<times> semver) list option" where
  "parseRange rangeText = those (map parseComparator (comparatorTrim (splitWhitespace rangeText)))"

text \<open>
  \<open>Range.test\<close>: every comparator holds; unless \<open>includePrerelease\<close> is set, a version with
  a prerelease also needs a comparator with a prerelease on the same major, minor and
  patch.
\<close>

definition cmp :: "semver \<Rightarrow> operator \<Rightarrow> semver \<Rightarrow> bool" where
  "cmp a op b =
     (case op of
        OpEq \<Rightarrow> compare a b = 0
      | OpGt \<Rightarrow> compare a b > 0
      | OpGte \<Rightarrow> compare a b \<ge> 0
      | OpLt \<Rightarrow> compare a b < 0
      | OpLte \<Rightarrow> compare a b \<le> 0)"

definition testSet :: "(operator \<times> semver) list \<Rightarrow> semver \<Rightarrow> bool \<Rightarrow> bool" where
  "testSet comps version includePrerelease \<longleftrightarrow>
     list_all (\<lambda>(op, v). cmp version op v) comps
     \<and> (prerelease version \<noteq> [] \<and> \<not> includePrerelease \<longrightarrow>
          list_ex (\<lambda>(op, allowed). prerelease allowed \<noteq> [] \<and> major allowed = major version
                      \<and> minor allowed = minor version \<and> patch allowed = patch version) comps)"

definition rangeTest :: "(operator \<times> semver) list \<Rightarrow> string \<Rightarrow> bool \<Rightarrow> bool" where
  "rangeTest comps version includePrerelease =
     (case parseSemVer version of None \<Rightarrow> False | Some v \<Rightarrow> testSet comps v includePrerelease)"

text \<open>
  \<open>maxSatisfying\<close>: \<open>null\<close> for an invalid range; otherwise the loop over the versions
  that keeps the first one not exceeded by a later one.
\<close>

fun maxLoop ::
  "(operator \<times> semver) list \<Rightarrow> bool \<Rightarrow> (string \<times> semver) option \<Rightarrow> string list
     \<Rightarrow> (string \<times> semver) option" where
  "maxLoop comps incl mx [] = mx"
| "maxLoop comps incl mx (v # vs) =
     maxLoop comps incl
       (if rangeTest comps v incl
        then (case (mx, parseSemVer v) of
                (None, Some sv) \<Rightarrow> Some (v, sv)
              | (Some (m, msv), Some sv) \<Rightarrow> if compare msv sv = - 1 then Some (v, sv) else mx
              | _ \<Rightarrow> mx)
        else mx)
       vs"

definition semverMaxSatisfying :: "string list \<Rightarrow> string \<Rightarrow> bool \<Rightarrow> string option" where
  "semverMaxSatisfying versions rangeText includePrerelease =
     (case parseRange rangeText of
        None \<Rightarrow> None
      | Some comps \<Rightarrow> map_option fst (maxLoop comps includePrerelease None versions))"

text \<open>
  The test \<open>/\\-\\d{8}$/\<close> of line 51, and the range text of lines 52-57 (\<open>null\<close>
  is what the template prints when \<open>inc\<close> returns \<open>null\<close>).
\<close>

definition datedSuffix :: "string \<Rightarrow> bool" where
  "datedSuffix v \<longleftrightarrow>
     9 \<le> length v \<and> hd (drop (length v - 9) v) = CHR ''-''
     \<and> list_all isDigit (drop (length v - 8) v)"

definition updateRange :: "string \<Rightarrow> string" where
  "updateRange currentVersion =
     ''>'' @ currentVersion @ '' <''
       @ (case semverInc currentVersion of Some next \<Rightarrow> next | None \<Rightarrow> ''null'')"



text \<open>
  \<open>satisfies\<close> of the package: whether one version lies in the range a text denotes.
\<close>

definition satisfies :: "string \<Rightarrow> string \<Rightarrow> bool \<Rightarrow> bool" where
  "satisfies version rangeText includePrerelease =
     (case parseRange rangeText of
        None \<Rightarrow> False
      | Some comps \<Rightarrow> rangeTest comps version includePrerelease)"

section \<open>checkForConfigUpdates\<close>

text \<open>
  \<open>checkForConfigUpdates\<close> (lines 24-62). The argument \<open>response\<close> is what the registry
  request yields: \<open>None\<close> when it fails, or the document. \<open>isObject\<close> holds of plain objects
  only; a \<open>JObject\<close> lists the properties in the order of \<open>Object.keys\<close>. The result is
  the error thrown, the version returned, or \<open>None\<close> for \<open>undefined\<close>.
\<close>

definition isObject :: "json option \<Rightarrow> bool" where
  "isObject it = (case it of Some (JObject kvs) \<Rightarrow> True | _ \<Rightarrow> False)"

definition objectKeys :: "json option \<Rightarrow> string list" where
  "objectKeys it = (case it of Some (JObject kvs) \<Rightarrow> map fst kvs | _ \<Rightarrow> [])"

definition checkForConfigUpdates :: "json option \<Rightarrow> string \<Rightarrow> ZWaveError + string option" where
  "checkForConfigUpdates response currentVersion =
     (case response of
        None \<Rightarrow>
          Inl (ZWaveError
            ''Could not check for config updates: Failed to download package information!''
            Config_Update_RegistryError)
      | Some registry \<Rightarrow>
          if \<not> isObject (Some registry) \<or> \<not> isObject (getProp (Some registry) ''versions'')
          then Inl (ZWaveError
            ''Could not check for config updates: Downloaded package information does not contain version information!''
            Config_Update_RegistryError)
          else
            (case semverMaxSatisfying
                    (filter datedSuffix
                       (filter (\<lambda>v. semverValid v \<noteq> None)
                          (objectKeys (getProp (Some registry) ''versions''))))
                    (updateRange currentVersion) True of
               Some updateVersion \<Rightarrow> if updateVersion \<noteq> [] then Inr (Some updateVersion) else Inr None
             | None \<Rightarrow> Inr None))"

section \<open>Notions used in the statements about versions\<close>

text \<open>The text \<open>format\<close> prints for a version without prerelease.\<close>

definition stableString :: "nat \<Rightarrow> nat \<Rightarrow> nat \<Rightarrow> string" where
  "stableString a b c = showNat a @ ''.'' @ showNat b @ ''.'' @ showNat c"

text \<open>
  A version strictly between the current one and its next patch version; a registry
  entry that qualifies as an update; and the invariant of the loop of \<open>maxSatisfying\<close>.
\<close>

definition inUpdateRange :: "semver \<Rightarrow> semver \<Rightarrow> bool" where
  "inUpdateRange c v \<longleftrightarrow> 0 < compare v c \<and> compare v (incPatch c) < 0"

definition qualifies :: "semver \<Rightarrow> string \<Rightarrow> bool" where
  "qualifies c version \<longleftrightarrow>
     datedSuffix version \<and> (\<exists>v. parseSemVer version = Some v \<and> inUpdateRange c v)"

definition isMaxOf ::
  "(operator \<times> semver) list \<Rightarrow> bool \<Rightarrow> string set \<Rightarrow> (string \<times> semver) option \<Rightarrow> bool" where
  "isMaxOf comps incl S mx =
     (case mx of
        None \<Rightarrow> (\<forall>w\<in>S. \<not> rangeTest comps w incl)
      | Some (m, msv) \<Rightarrow>
          parseSemVer m = Some msv \<and> m \<in> S \<and> rangeTest comps m incl
          \<and> (\<forall>w\<in>S. \<forall>sw. rangeTest comps w incl \<and> parseSemVer w = Some sw
                 \<longrightarrow> compare sw msv \<le> 0))"

text \<open>
  The example of the spec: the registry lists 7.2.5-20200101, 7.2.5-20200424 and 7.3.0.
\<close>

definition exampleRegistry :: json where
  "exampleRegistry = JObject [(''name'', JString ''@zwave-js/config''),
     (''versions'', JObject [(''7.2.5-20200101'', JObject []), (''7.2.5-20200424'', JObject []),
                            (''7.3.0'', JObject [])])]"

section \<open>Paths: basic facts\<close>








lemma pathJoin_inject [simp]: "pathJoin d a = pathJoin d b \<longleftrightarrow> a = b"
  by (simp add: pathJoin_def)

lemma pathJoin_neq_dir [simp]: "pathJoin d a \<noteq> d" "d \<noteq> pathJoin d a"
  by (simp_all add: pathJoin_def)








section \<open>The disk operations at one path\<close>

lemma disk_apply:
  "deleteDir d fs p = (if under d p then None else fs p)"
  "ensureDir d fs p = (if fs d = None then (if p = d then Some Dir else fs p) else fs p)"
  "writeTextFile q txt fs p = (if p = q then Some (File (Text txt)) else fs p)"
  by (simp_all add: deleteDir_def ensureDir_def writeTextFile_def)






section \<open>The steps: what a result tells\<close>

lemma disk_logCall [simp]: "disk (logCall s w) = disk w"
  by (simp add: logCall_def)

lemma locks_logCall [simp]: "locks (logCall s w) = locks w"
  by (simp add: logCall_def)

lemma trace_logCall [simp]: "trace (logCall s w) = trace w @ [s]"
  by (simp add: logCall_def)

lemma disk_freeLock [simp]: "disk (freeLock E lf w) = disk w"
  by (simp add: freeLock_def Let_def split: option.splits)


lemma andThen_None:
  "andThen f g w = (None, w') \<Longrightarrow> \<exists>w1. f w = (None, w1) \<and> g w1 = (None, w')"
  by (auto simp: andThen_def split: prod.splits option.splits)

lemma andThen_cases:
  "andThen f g w = (r, w') \<Longrightarrow>
     (\<exists>e. f w = (Some e, w') \<and> r = Some e) \<or> (\<exists>w1. f w = (None, w1) \<and> g w1 = (r, w'))"
  by (auto simp: andThen_def split: prod.splits option.splits)

lemma guarded_None:
  "guarded E s eff w = (None, w') \<Longrightarrow>
     fault E s = None \<and> w' = logCall s (w\<lparr>disk := eff (disk w)\<rparr>)"
  by (auto simp: guarded_def split: option.splits)




lemma execaTar_fault: "execaTar E a d w = (None, w') \<Longrightarrow> fault E TarExtract = None"
  by (auto simp: execaTar_def split: option.splits)



lemma downloadTarball_frame:
  "downloadTarball E url tar w = Some (r, w') \<Longrightarrow> locks w' = locks w \<and> trace w' = trace w"
  by (auto simp: downloadTarball_def Let_def split: option.splits sum.splits if_splits)






lemma extractAndReplace_None_faults:
  assumes "extractAndReplace E v ext tar extr w = (None, w')"
  shows "\<forall>s \<in> extractSites. fault E s = None"
  using assms unfolding extractAndReplace_def extractTarball_def overwriteConfig_def extractSites_def
  by (auto dest!: andThen_None guarded_None execaTar_fault)

section \<open>The lock calls in the trace\<close>

lemma quiet_andThen: "quiet f \<Longrightarrow> quiet g \<Longrightarrow> quiet (andThen f g)"
  unfolding quiet_def
proof (intro allI impI)
  fix w r w'
  assume f: "\<forall>w r w'. f w = (r, w') \<longrightarrow> locks w' = locks w \<and>
      (\<exists>ts. trace w' = trace w @ ts \<and> LockfileCheck \<notin> set ts \<and> LockfileUnlock \<notin> set ts)"
    and g: "\<forall>w r w'. g w = (r, w') \<longrightarrow> locks w' = locks w \<and>
      (\<exists>ts. trace w' = trace w @ ts \<and> LockfileCheck \<notin> set ts \<and> LockfileUnlock \<notin> set ts)"
    and run: "andThen f g w = (r, w')"
  from andThen_cases[OF run] show "locks w' = locks w \<and>
      (\<exists>ts. trace w' = trace w @ ts \<and> LockfileCheck \<notin> set ts \<and> LockfileUnlock \<notin> set ts)"
  proof
    assume "\<exists>e. f w = (Some e, w') \<and> r = Some e"
    then show ?thesis using f by blast
  next
    assume "\<exists>w1. f w = (None, w1) \<and> g w1 = (r, w')"
    then obtain w1 where 1: "f w = (None, w1)" and 2: "g w1 = (r, w')" by blast
    from f 1 obtain ts1 where a: "locks w1 = locks w" "trace w1 = trace w @ ts1"
      "LockfileCheck \<notin> set ts1" "LockfileUnlock \<notin> set ts1" by blast
    from g 2 obtain ts2 where b: "locks w' = locks w1" "trace w' = trace w1 @ ts2"
      "LockfileCheck \<notin> set ts2" "LockfileUnlock \<notin> set ts2" by blast
    have "trace w' = trace w @ (ts1 @ ts2)" using a b by simp
    moreover have "LockfileCheck \<notin> set (ts1 @ ts2)" "LockfileUnlock \<notin> set (ts1 @ ts2)"
      using a b by simp_all
    ultimately show ?thesis using a b by metis
  qed
qed

lemma quiet_guarded: "s \<noteq> LockfileCheck \<Longrightarrow> s \<noteq> LockfileUnlock \<Longrightarrow> quiet (guarded E s eff)"
  by (auto simp: quiet_def guarded_def split: option.splits)

lemma quiet_execaTar: "quiet (execaTar E a d)"
  by (auto simp: quiet_def execaTar_def split: option.splits node.splits content.splits if_splits)

lemma quiet_extractAndReplace: "quiet (extractAndReplace E v ext tar extr)"
  unfolding extractAndReplace_def extractTarball_def overwriteConfig_def
  by (intro quiet_andThen quiet_guarded quiet_execaTar) simp_all

lemma freeLock_effect:
  "\<exists>ts. trace (freeLock E lf w) = trace w @ ts \<and> count_list ts LockfileCheck = 1
      \<and> count_list ts LockfileUnlock \<le> 1
      \<and> (fault E LockfileCheck = None \<and> fault E LockfileUnlock = None \<and> lf \<in> locks w
            \<longrightarrow> count_list ts LockfileUnlock = 1)
      \<and> (fault E LockfileCheck = None \<and> fault E LockfileUnlock = None
            \<longrightarrow> lf \<notin> locks (freeLock E lf w))"
  by (auto simp: freeLock_def Let_def split: option.splits)

lemma freeLock_after:
  assumes tr: "trace wX = trace w @ pre"
    and pre: "LockfileCheck \<notin> set pre" "LockfileUnlock \<notin> set pre"
    and held: "lf \<in> locks wX"
  shows "\<exists>ts. trace (freeLock E lf wX) = trace w @ ts \<and> count_list ts LockfileCheck = 1
      \<and> count_list ts LockfileUnlock \<le> 1
      \<and> (fault E LockfileCheck = None \<and> fault E LockfileUnlock = None
            \<longrightarrow> count_list ts LockfileUnlock = 1 \<and> lf \<notin> locks (freeLock E lf wX))"
proof -
  from freeLock_effect[of E lf wX] obtain ts where
    t: "trace (freeLock E lf wX) = trace wX @ ts" "count_list ts LockfileCheck = 1"
       "count_list ts LockfileUnlock \<le> 1"
       "fault E LockfileCheck = None \<and> fault E LockfileUnlock = None \<and> lf \<in> locks wX
            \<longrightarrow> count_list ts LockfileUnlock = 1"
       "fault E LockfileCheck = None \<and> fault E LockfileUnlock = None
            \<longrightarrow> lf \<notin> locks (freeLock E lf wX)"
    by blast
  have "trace (freeLock E lf wX) = trace w @ (pre @ ts)" using t tr by simp
  moreover have "count_list (pre @ ts) LockfileCheck = 1" using t pre by simp
  moreover have "count_list (pre @ ts) LockfileUnlock \<le> 1" using t pre by simp
  moreover have "fault E LockfileCheck = None \<and> fault E LockfileUnlock = None
      \<longrightarrow> count_list (pre @ ts) LockfileUnlock = 1 \<and> lf \<notin> locks (freeLock E lf wX)"
    using t pre held by simp
  ultimately show ?thesis by blast
qed

section \<open>The call as a whole\<close>

text \<open>The remainder of the call once the lock is held and the workspace exists.\<close>

lemma installConfigUpdate_after_mkdtemp:
  assumes f: "fault E RegistryGet = None"
    and u: "tarballUrl (registryInfo E (versionInfoUrl v)) = Some url"
    and l: "lockfileLock E (lockfileOf ext) (logCall LockfileLock (logCall RegistryGet w)) = Inr w1"
    and m: "fault E Mkdtemp = None"
  shows "installConfigUpdate E v ext w =
     (case downloadTarball E url (tarFilenameOf (tmpDirOf E))
             (logCall OpenTarFile ((logCall Mkdtemp w1)\<lparr>disk := (disk w1)(tmpDirOf E \<mapsto> Dir)\<rparr>)) of
        None \<Rightarrow> None
      | Some (Some e, w3) \<Rightarrow>
          Some (Inl (ZWaveError
            (''Config update failed: Could not download tarball. Reason: '' @ getErrorMessage e)
            Config_Update_InstallFailed), freeLock E (lockfileOf ext) w3)
      | Some (None, w3) \<Rightarrow>
         (case extractAndReplace E v ext (tarFilenameOf (tmpDirOf E)) (extractedDirOf (tmpDirOf E)) w3 of
            (Some e, w4) \<Rightarrow>
              Some (Inl (ZWaveError ''Config update failed: Could not extract tarball''
                Config_Update_InstallFailed), freeLock E (lockfileOf ext) w4)
          | (None, w4) \<Rightarrow>
              Some (Inr (), freeLock E (lockfileOf ext)
                 (snd (guarded E DeleteTmpDir (deleteDir (tmpDirOf E)) w4)))))"
  by (simp add: installConfigUpdate_def f u l m mkdtemp_def)


section \<open>The concrete installation, evaluated\<close>

lemma exampleEnv_simps:
  "fault (exampleEnv f evs) = f"
  "registryInfo (exampleEnv f evs) u = exampleDoc"
  "tmpDirOf (exampleEnv f evs) = ''/tmp/zjs-config-update-AbC123''"
  "download (exampleEnv f evs) u = Tarball exampleArchive"
  "streamEvents (exampleEnv f evs) = evs"
  by (simp_all add: exampleEnv_def tmpDirOf_def pathJoin_def)

lemma tarballUrl_exampleDoc:
  "tarballUrl exampleDoc = Some ''https://registry.npmjs.org/@zwave-js/config/-/config-1.0.1.tgz''"
  by (simp add: tarballUrl_def exampleDoc_def)

lemma exampleExt_simps:
  "configDir exampleExt = ''/data/cfg''"
  "lockfileOf exampleExt = ''/data/cache/config-update.lock''"
  by (simp_all add: exampleExt_def lockfileOf_def pathJoin_def)

lemma exampleWorld_simps:
  "disk exampleWorld = [''/data/cfg/old.json'' \<mapsto> File (Text ''O'')]"
  "locks exampleWorld = {}"
  "trace exampleWorld = []"
  by (simp_all add: exampleWorld_def)

lemmas run_simps =
  installConfigUpdate_def exampleEnv_simps tarballUrl_exampleDoc exampleExt_simps exampleWorld_simps
  noFault_def faultAt_def
  lockfileLock_def mkdtemp_def downloadTarball_def extractAndReplace_def extractTarball_def
  overwriteConfig_def andThen_def guarded_def execaTar_def freeLock_def Let_def tarFilenameOf_def
  extractedDirOf_def pathJoin_def normalizeToUnixStyle_def startsWith_def getErrorMessage_def
  disk_apply under_def

section \<open>Claims about installConfigUpdate\<close>






text \<open>
  Claim C3, as stated, fails: \<open>freeLock\<close> drops an error of \<open>lockfile.unlock\<close>, so when
  the workspace cannot be created and the unlock fails as well, the call throws with
  the lock still held, and the next call is refused as "already in progress".
\<close>

theorem failed_unlock_keeps_lock:
  "map_option fst (installConfigUpdate envMkdtempAndUnlockFail ''1.0.1'' exampleExt exampleWorld)
     = Some (Inl (ZWaveError
         ''Config update failed: Could not create temporary directory. Reason: ENOSPC: no space left on device, mkdtemp''
         Config_Update_InstallFailed))
   \<and> ''/data/cache/config-update.lock''
        \<in> locks (snd (the (installConfigUpdate envMkdtempAndUnlockFail ''1.0.1'' exampleExt exampleWorld)))
   \<and> map_option fst (installConfigUpdate envOk ''1.0.1'' exampleExt
        (snd (the (installConfigUpdate envMkdtempAndUnlockFail ''1.0.1'' exampleExt exampleWorld))))
     = Some (Inl (ZWaveError ''Config update failed: Another installation is already in progress!''
                    Config_Update_InstallFailed))"
  by (simp add: envMkdtempAndUnlockFail_def envOk_def run_simps)

text \<open>
  Claim C3, amended. In every call of \<open>installConfigUpdate\<close> that acquires the lock and
  then returns or throws, \<open>freeLock\<close> runs exactly once (one call of \<open>lockfile.check\<close>, at
  most one of \<open>lockfile.unlock\<close>); when neither \<open>check\<close> nor \<open>unlock\<close> fails, the lock is
  unlocked once and is no longer held after the call.
\<close>

theorem freeLock_runs_once:
  assumes run: "installConfigUpdate E v ext w = Some (r, w')"
    and reg: "fault E RegistryGet = None"
    and url: "tarballUrl (registryInfo E (versionInfoUrl v)) = Some url"
    and free: "lockfileOf ext \<notin> locks w"
    and lck: "fault E LockfileLock = None"
  shows "\<exists>ts. trace w' = trace w @ ts \<and> count_list ts LockfileCheck = 1
      \<and> count_list ts LockfileUnlock \<le> 1
      \<and> (fault E LockfileCheck = None \<and> fault E LockfileUnlock = None
            \<longrightarrow> count_list ts LockfileUnlock = 1 \<and> lockfileOf ext \<notin> locks w')"
proof -
  let ?lf = "lockfileOf ext"
  define w1 where
    "w1 = (logCall LockfileLock (logCall RegistryGet w))\<lparr>locks := insert ?lf (locks w)\<rparr>"
  have l: "lockfileLock E ?lf (logCall LockfileLock (logCall RegistryGet w)) = Inr w1"
    using free lck by (simp add: lockfileLock_def w1_def)
  have t1: "trace w1 = trace w @ [RegistryGet, LockfileLock]" and h1: "?lf \<in> locks w1"
    by (simp_all add: w1_def)
  show ?thesis
  proof (cases "fault E Mkdtemp")
    case (Some e)
    then have w': "w' = freeLock E ?lf (logCall Mkdtemp w1)"
      using run by (simp add: installConfigUpdate_def reg url l mkdtemp_def)
    show ?thesis unfolding w'
      by (rule freeLock_after[where pre = "[RegistryGet, LockfileLock, Mkdtemp]"])
         (simp_all add: t1 h1)
  next
    case None
    define w2 where
      "w2 = logCall OpenTarFile ((logCall Mkdtemp w1)\<lparr>disk := (disk w1)(tmpDirOf E \<mapsto> Dir)\<rparr>)"
    have t2: "trace w2 = trace w @ [RegistryGet, LockfileLock, Mkdtemp, OpenTarFile]"
      and h2: "?lf \<in> locks w2" by (simp_all add: w2_def t1 h1)
    note step = installConfigUpdate_after_mkdtemp[OF reg url l None, folded w2_def]
    from run obtain r3 w3 where
      dl: "downloadTarball E url (tarFilenameOf (tmpDirOf E)) w2 = Some (r3, w3)"
      unfolding step by (cases "downloadTarball E url (tarFilenameOf (tmpDirOf E)) w2") auto
    have t3: "trace w3 = trace w @ [RegistryGet, LockfileLock, Mkdtemp, OpenTarFile]"
      and h3: "?lf \<in> locks w3" using downloadTarball_frame[OF dl] t2 h2 by simp_all
    show ?thesis
    proof (cases r3)
      case (Some e)
      then have w': "w' = freeLock E ?lf w3" using run by (simp add: step dl)
      show ?thesis unfolding w'
        by (rule freeLock_after[OF t3]) (simp_all add: h3)
    next
      case None
      obtain r4 w4 where ex: "extractAndReplace E v ext (tarFilenameOf (tmpDirOf E))
          (extractedDirOf (tmpDirOf E)) w3 = (r4, w4)" by fastforce
      from quiet_extractAndReplace ex obtain ts4 where
        q4: "locks w4 = locks w3" "trace w4 = trace w3 @ ts4"
            "LockfileCheck \<notin> set ts4" "LockfileUnlock \<notin> set ts4"
        unfolding quiet_def by blast
      show ?thesis
      proof (cases r4)
        case (Some e)
        then have w': "w' = freeLock E ?lf w4" using run by (simp add: step dl None ex)
        show ?thesis unfolding w'
          by (rule freeLock_after[where
                pre = "[RegistryGet, LockfileLock, Mkdtemp, OpenTarFile] @ ts4"])
             (simp_all add: q4 t3 h3)
      next
        case None': None
        obtain r5 w5 where del: "guarded E DeleteTmpDir (deleteDir (tmpDirOf E)) w4 = (r5, w5)"
          by fastforce
        have q5: "locks w5 = locks w4" "trace w5 = trace w4 @ [DeleteTmpDir]"
          using del by (auto simp: guarded_def split: option.splits)
        have w': "w' = freeLock E ?lf w5" using run by (simp add: step dl None ex None' del)
        show ?thesis unfolding w'
          by (rule freeLock_after[where
                pre = "[RegistryGet, LockfileLock, Mkdtemp, OpenTarFile] @ ts4 @ [DeleteTmpDir]"])
             (simp_all add: q4 q5 t3 h3)
      qed
    qed
  qed
qed

theorem freeLock_runs_once_witness:
  "map_option fst (installConfigUpdate envCopyFails ''1.0.1'' exampleExt exampleWorld)
     = Some (Inl (ZWaveError ''Config update failed: Could not extract tarball''
                    Config_Update_InstallFailed))
   \<and> count_list (trace (snd (the (installConfigUpdate envCopyFails ''1.0.1'' exampleExt exampleWorld))))
        LockfileCheck = 1
   \<and> count_list (trace (snd (the (installConfigUpdate envCopyFails ''1.0.1'' exampleExt exampleWorld))))
        LockfileUnlock = 1
   \<and> lockfileOf exampleExt
        \<notin> locks (snd (the (installConfigUpdate envCopyFails ''1.0.1'' exampleExt exampleWorld)))"
proof -
  let ?err = "ZWaveError ''Config update failed: Could not extract tarball'' Config_Update_InstallFailed"
  obtain w' where run: "installConfigUpdate envCopyFails ''1.0.1'' exampleExt exampleWorld
      = Some (Inl ?err, w')"
    by (simp add: envCopyFails_def run_simps)
  have reg: "fault envCopyFails RegistryGet = None"
    and lck: "fault envCopyFails LockfileLock = None"
    and chk: "fault envCopyFails LockfileCheck = None"
    and unl: "fault envCopyFails LockfileUnlock = None"
    by (simp_all add: envCopyFails_def exampleEnv_simps faultAt_def)
  have url: "tarballUrl (registryInfo envCopyFails (versionInfoUrl ''1.0.1''))
      = Some ''https://registry.npmjs.org/@zwave-js/config/-/config-1.0.1.tgz''"
    by (simp add: envCopyFails_def exampleEnv_simps tarballUrl_exampleDoc)
  have free: "lockfileOf exampleExt \<notin> locks exampleWorld"
    by (simp add: exampleWorld_simps)
  from freeLock_runs_once[OF run reg url free lck] chk unl obtain ts where
    "trace w' = trace exampleWorld @ ts" "count_list ts LockfileCheck = 1"
    "count_list ts LockfileUnlock = 1" "lockfileOf exampleExt \<notin> locks w'"
    by blast
  then show ?thesis by (simp add: run exampleWorld_simps)
qed

text \<open>
  Claim C4 against the code: the workspace directory is deleted on the success path
  only (line 214). When the download fails, the call throws and the directory created
  by \<open>mkdtemp\<close> is still on disk, with the unfinished archive in it.
\<close>

theorem failed_download_leaves_workspace:
  "map_option fst (installConfigUpdate envTransportError ''1.0.1'' exampleExt exampleWorld)
     = Some (Inl (ZWaveError
         ''Config update failed: Could not download tarball. Reason: read ECONNRESET''
         Config_Update_InstallFailed))
   \<and> disk exampleWorld ''/tmp/zjs-config-update-AbC123'' = None
   \<and> disk (snd (the (installConfigUpdate envTransportError ''1.0.1'' exampleExt exampleWorld)))
        ''/tmp/zjs-config-update-AbC123'' = Some Dir
   \<and> disk (snd (the (installConfigUpdate envTransportError ''1.0.1'' exampleExt exampleWorld)))
        ''/tmp/zjs-config-update-AbC123/zjs-config-update.tgz'' = Some (File Truncated)"
  by (simp add: envTransportError_def run_simps)

text \<open>
  Claim C8 against the code: the promise of the download listens to \<open>response\<close> only.
  An error of the file write stream alone leaves the call pending for ever; when the
  response still ends, the call goes on to the extraction and reports "Could not
  extract tarball". In neither case is an error naming the write error thrown.
\<close>

theorem write_error_not_reported:
  "installConfigUpdate envWriteError ''1.0.1'' exampleExt exampleWorld = None
   \<and> map_option fst (installConfigUpdate envWriteErrorThenEnd ''1.0.1'' exampleExt exampleWorld)
     = Some (Inl (ZWaveError ''Config update failed: Could not extract tarball''
                    Config_Update_InstallFailed))"
  by (simp add: envWriteError_def envWriteErrorThenEnd_def run_simps)

text \<open>
  Claim C9. Whatever the cause of a failure of \<open>lockfile.lock\<close>, the call throws the
  error with code \<open>Config_Update_InstallFailed\<close> and the message "Config update failed:
  Another installation is already in progress!"; the cause does not reach the caller.
\<close>

theorem lock_failure_message:
  assumes reg: "fault E RegistryGet = None"
    and url: "tarballUrl (registryInfo E (versionInfoUrl v)) = Some url"
    and lck: "lockfileLock E (lockfileOf ext) (logCall LockfileLock (logCall RegistryGet w)) = Inl cause"
  shows "installConfigUpdate E v ext w =
           Some (Inl (ZWaveError ''Config update failed: Another installation is already in progress!''
                        Config_Update_InstallFailed),
                 logCall LockfileLock (logCall RegistryGet w))"
  by (simp add: installConfigUpdate_def reg url lck)

theorem lock_failure_message_witness:
  "lockfileLock envLockFails (lockfileOf exampleExt)
       (logCall LockfileLock (logCall RegistryGet exampleWorld))
     = Inl ''ENOENT: no such file or directory, lstat /data/cache''
   \<and> installConfigUpdate envLockFails ''1.0.1'' exampleExt exampleWorld =
       Some (Inl (ZWaveError ''Config update failed: Another installation is already in progress!''
                    Config_Update_InstallFailed),
             logCall LockfileLock (logCall RegistryGet exampleWorld))"
proof -
  have reg: "fault envLockFails RegistryGet = None"
    by (simp add: envLockFails_def exampleEnv_simps faultAt_def)
  have url: "tarballUrl (registryInfo envLockFails (versionInfoUrl ''1.0.1''))
      = Some ''https://registry.npmjs.org/@zwave-js/config/-/config-1.0.1.tgz''"
    by (simp add: envLockFails_def exampleEnv_simps tarballUrl_exampleDoc)
  have lck: "lockfileLock envLockFails (lockfileOf exampleExt)
       (logCall LockfileLock (logCall RegistryGet exampleWorld))
     = Inl ''ENOENT: no such file or directory, lstat /data/cache''"
    by (simp add: lockfileLock_def envLockFails_def exampleEnv_simps faultAt_def exampleWorld_simps)
  from lck lock_failure_message[OF reg url lck] show ?thesis by blast
qed

text \<open>
  Claim C10. Whenever the \<open>try\<close> block of lines 179-204 throws, whatever the error and
  whichever of its calls raised it, the call throws the error with the message "Config
  update failed: Could not extract tarball" and nothing of the cause; and a failure of
  any of the seven calls of the block (deleting or creating \<open>extracted/\<close>, running
  \<open>tar\<close>, deleting or creating the configuration directory, copying the files, writing
  the version file) makes the block throw.
\<close>

theorem extract_phase_failure_message:
  assumes reg: "fault E RegistryGet = None"
    and url: "tarballUrl (registryInfo E (versionInfoUrl v)) = Some url"
    and lck: "lockfileLock E (lockfileOf ext) (logCall LockfileLock (logCall RegistryGet w)) = Inr w1"
    and mk: "fault E Mkdtemp = None"
    and dl: "downloadTarball E url (tarFilenameOf (tmpDirOf E))
               (logCall OpenTarFile ((logCall Mkdtemp w1)\<lparr>disk := (disk w1)(tmpDirOf E \<mapsto> Dir)\<rparr>))
             = Some (None, w3)"
  shows "(\<forall>e w4. extractAndReplace E v ext (tarFilenameOf (tmpDirOf E)) (extractedDirOf (tmpDirOf E)) w3
                    = (Some e, w4)
            \<longrightarrow> installConfigUpdate E v ext w =
                  Some (Inl (ZWaveError ''Config update failed: Could not extract tarball''
                               Config_Update_InstallFailed),
                        freeLock E (lockfileOf ext) w4))
       \<and> (\<forall>s e. s \<in> extractSites \<and> fault E s = Some e
            \<longrightarrow> (\<exists>e' w4. extractAndReplace E v ext (tarFilenameOf (tmpDirOf E))
                             (extractedDirOf (tmpDirOf E)) w3 = (Some e', w4)))"
proof (intro conjI allI impI)
  fix e w4
  assume "extractAndReplace E v ext (tarFilenameOf (tmpDirOf E)) (extractedDirOf (tmpDirOf E)) w3
      = (Some e, w4)"
  then show "installConfigUpdate E v ext w =
      Some (Inl (ZWaveError ''Config update failed: Could not extract tarball''
                   Config_Update_InstallFailed),
            freeLock E (lockfileOf ext) w4)"
    by (simp add: installConfigUpdate_after_mkdtemp[OF reg url lck mk] dl)
next
  fix s e
  assume s: "s \<in> extractSites \<and> fault E s = Some e"
  obtain r4 w4 where ex: "extractAndReplace E v ext (tarFilenameOf (tmpDirOf E))
      (extractedDirOf (tmpDirOf E)) w3 = (r4, w4)" by fastforce
  have "r4 \<noteq> None" using extractAndReplace_None_faults ex s by fastforce
  then show "\<exists>e' w4. extractAndReplace E v ext (tarFilenameOf (tmpDirOf E))
      (extractedDirOf (tmpDirOf E)) w3 = (Some e', w4)" using ex by auto
qed

theorem extract_phase_failure_message_witness:
  "CopyFiles \<in> extractSites
   \<and> fault envCopyFails CopyFiles = Some ''EIO: i/o error, copyfile''
   \<and> map_option fst (installConfigUpdate envCopyFails ''1.0.1'' exampleExt exampleWorld)
       = Some (Inl (ZWaveError ''Config update failed: Could not extract tarball''
                      Config_Update_InstallFailed))"
proof -
  have reg: "fault envCopyFails RegistryGet = None"
    and mk: "fault envCopyFails Mkdtemp = None"
    and cp: "fault envCopyFails CopyFiles = Some ''EIO: i/o error, copyfile''"
    by (simp_all add: envCopyFails_def exampleEnv_simps faultAt_def)
  have site: "CopyFiles \<in> extractSites" by (simp add: extractSites_def)
  have url: "tarballUrl (registryInfo envCopyFails (versionInfoUrl ''1.0.1''))
      = Some ''https://registry.npmjs.org/@zwave-js/config/-/config-1.0.1.tgz''"
    by (simp add: envCopyFails_def exampleEnv_simps tarballUrl_exampleDoc)
  obtain w1 where lck: "lockfileLock envCopyFails (lockfileOf exampleExt)
       (logCall LockfileLock (logCall RegistryGet exampleWorld)) = Inr w1"
    by (simp add: lockfileLock_def envCopyFails_def exampleEnv_simps faultAt_def exampleWorld_simps)
  obtain w3 where dl: "downloadTarball envCopyFails
       ''https://registry.npmjs.org/@zwave-js/config/-/config-1.0.1.tgz''
       (tarFilenameOf (tmpDirOf envCopyFails))
       (logCall OpenTarFile ((logCall Mkdtemp w1)\<lparr>disk := (disk w1)(tmpDirOf envCopyFails \<mapsto> Dir)\<rparr>))
     = Some (None, w3)"
    by (simp add: downloadTarball_def envCopyFails_def exampleEnv_simps faultAt_def)
  note t = extract_phase_failure_message[OF reg url lck mk dl]
  from t site cp obtain e' w4 where
    "extractAndReplace envCopyFails ''1.0.1'' exampleExt (tarFilenameOf (tmpDirOf envCopyFails))
       (extractedDirOf (tmpDirOf envCopyFails)) w3 = (Some e', w4)"
    by blast
  with t have "installConfigUpdate envCopyFails ''1.0.1'' exampleExt exampleWorld =
      Some (Inl (ZWaveError ''Config update failed: Could not extract tarball''
                   Config_Update_InstallFailed),
            freeLock envCopyFails (lockfileOf exampleExt) w4)"
    by blast
  with site cp show ?thesis by simp
qed


section \<open>Decimal numerals\<close>

lemma digitChar_cases:
  "d < 10 \<Longrightarrow> d = 0 \<or> d = 1 \<or> d = 2 \<or> d = 3 \<or> d = 4 \<or> d = 5 \<or> d = 6 \<or> d = 7 \<or> d = 8 \<or> d = (9::nat)"
  by arith

lemma digitChar_isDigit: "d < 10 \<Longrightarrow> isDigit (digitChar d)"
  using digitChar_cases[of d] by (auto simp: isDigit_def digitChar_def)

lemma digitVal_digitChar: "d < 10 \<Longrightarrow> digitVal (digitChar d) = d"
  using digitChar_cases[of d] by (auto simp: digitVal_def digitChar_def)

lemma digitChar_zero: "d < 10 \<Longrightarrow> digitChar d = CHR ''0'' \<longleftrightarrow> d = 0"
  using digitChar_cases[of d] by (auto simp: digitChar_def)

lemma showNat_nonempty: "showNat n \<noteq> []"
  by (subst showNat.simps) simp

lemma showNat_digits: "list_all isDigit (showNat n)"
proof (induction n rule: showNat.induct)
  case (1 n)
  show ?case
  proof (cases "n < 10")
    case True
    then show ?thesis by (subst showNat.simps) (simp add: digitChar_isDigit)
  next
    case False
    then show ?thesis using 1 by (subst showNat.simps) (simp add: digitChar_isDigit)
  qed
qed

lemma decimal_snoc: "decimal (xs @ [c]) = 10 * decimal xs + digitVal c"
  by (simp add: decimal_def)

lemma decimal_showNat: "decimal (showNat n) = n"
proof (induction n rule: showNat.induct)
  case (1 n)
  show ?case
  proof (cases "n < 10")
    case True
    then show ?thesis by (subst showNat.simps) (simp add: decimal_def digitVal_digitChar)
  next
    case False
    then show ?thesis using 1
      by (subst showNat.simps) (simp add: decimal_snoc digitVal_digitChar)
  qed
qed

lemma showNat_hd: "hd (showNat n) = CHR ''0'' \<Longrightarrow> n = 0"
proof (induction n rule: showNat.induct)
  case (1 n)
  show ?case
  proof (cases "n < 10")
    case True
    then show ?thesis using 1(2) by (subst (asm) showNat.simps) (simp add: digitChar_zero)
  next
    case False
    then have "hd (showNat n) = hd (showNat (n div 10))"
      by (subst showNat.simps) (simp add: showNat_nonempty)
    with 1 False have "n div 10 = 0" by simp
    with False show ?thesis by simp
  qed
qed

lemma showNat_zero: "showNat 0 = ''0''"
  by (subst showNat.simps) (simp add: digitChar_def)

lemma showNat_numeric: "isNumericIdentifier (showNat n)"
  using showNat_hd[of n] showNat_zero
  by (auto simp: isNumericIdentifier_def showNat_nonempty showNat_digits)

lemma showNat_length: "n < 10 ^ k \<Longrightarrow> 0 < k \<Longrightarrow> length (showNat n) \<le> k"
proof (induction n arbitrary: k rule: showNat.induct)
  case (1 n)
  show ?case
  proof (cases "n < 10")
    case True
    then show ?thesis using 1(3) by (subst showNat.simps) simp
  next
    case False
    then obtain k' where k: "k = Suc k'" and k': "0 < k'"
      using 1(2,3) by (cases k; cases "k - 1") auto
    have "n div 10 < 10 ^ k'" using 1(2) k by (simp add: less_mult_imp_div_less mult.commute)
    from 1(1)[OF False this k'] show ?thesis using False k by (subst showNat.simps) simp
  qed
qed

lemma toNumber_small: "n < 2 ^ 53 \<Longrightarrow> toNumber n = n"
  by (simp add: toNumber_def)

lemma bitlen_2_53: "bitlen 9007199254740992 = 54"
  by (simp add: bitlen.simps)

lemma toNumber_2_53: "toNumber 9007199254740992 = 9007199254740992"
  by (simp add: toNumber_def bitlen_2_53 Let_def)

lemma parseNumber_showNat:
  "parseNumber (showNat n) = (if n \<le> MAX_SAFE_INTEGER then Some n else None)" if "n \<le> 9007199254740992"
proof (cases "n \<le> MAX_SAFE_INTEGER")
  case True
  then have "toNumber n = n" by (simp add: toNumber_small MAX_SAFE_INTEGER_def)
  then show ?thesis using True by (simp add: parseNumber_def showNat_numeric decimal_showNat)
next
  case False
  then have n: "n = 9007199254740992" using that by (simp add: MAX_SAFE_INTEGER_def)
  show ?thesis using False unfolding n
    by (simp add: parseNumber_def decimal_showNat toNumber_2_53 MAX_SAFE_INTEGER_def)
qed


section \<open>Trimming and splitting\<close>

lemma versionChar_not_whitespace: "isVersionChar c \<Longrightarrow> \<not> isWhitespace c"
  by (auto simp: isVersionChar_def isLetterDashNumber_def isWhitespace_def)

lemma digit_versionChar: "isDigit c \<Longrightarrow> isVersionChar c"
  by (auto simp: isVersionChar_def isLetterDashNumber_def isDigit_def)

lemma trim_decompose:
  "\<exists>ws1 ws2. s = ws1 @ trim s @ ws2 \<and> list_all isWhitespace ws1 \<and> list_all isWhitespace ws2"
proof -
  let ?s1 = "dropWhile isWhitespace s"
  have a: "s = takeWhile isWhitespace s @ ?s1" by simp
  have "?s1 = rev (takeWhile isWhitespace (rev ?s1) @ dropWhile isWhitespace (rev ?s1))"
    by (metis rev_rev_ident takeWhile_dropWhile_id)
  then have b: "?s1 = trim s @ rev (takeWhile isWhitespace (rev ?s1))"
    unfolding rev_append trim_def .
  have "list_all isWhitespace (takeWhile isWhitespace s)"
    by (simp add: list_all_iff) (meson set_takeWhileD)
  moreover have "list_all isWhitespace (rev (takeWhile isWhitespace (rev ?s1)))"
    by (simp add: list_all_iff) (meson set_takeWhileD)
  ultimately show ?thesis using a b by metis
qed

lemma trim_clean:
  assumes "s \<noteq> []" "\<not> isWhitespace (hd s)" "\<not> isWhitespace (last s)"
  shows "trim s = s"
proof -
  have "dropWhile isWhitespace s = s" using assms by (cases s) auto
  moreover have "dropWhile isWhitespace (rev s) = rev s"
    using assms by (cases "rev s") (auto simp: last_rev hd_rev)
  ultimately show ?thesis by (simp add: trim_def)
qed

lemma trim_versionChars: "s \<noteq> [] \<Longrightarrow> list_all isVersionChar s \<Longrightarrow> trim s = s"
  by (rule trim_clean) (auto simp: list_all_iff versionChar_not_whitespace)

lemma sw_nil: "list_all isWhitespace ws \<Longrightarrow> splitWhitespace ws = []"
proof -
  assume "list_all isWhitespace ws"
  then have d: "dropWhile isWhitespace ws = []" by (simp add: list_all_iff)
  show ?thesis by (subst splitWhitespace.simps, subst d) simp
qed

lemma sw_ws: "list_all isWhitespace ws \<Longrightarrow> splitWhitespace (ws @ s) = splitWhitespace s"
proof -
  assume "list_all isWhitespace ws"
  then have "dropWhile isWhitespace (ws @ s) = dropWhile isWhitespace s"
    by (simp add: list_all_iff dropWhile_append2)
  then show ?thesis by (subst splitWhitespace.simps, subst (2) splitWhitespace.simps) simp
qed

lemma sw_word:
  assumes w: "w \<noteq> []" "list_all (\<lambda>c. \<not> isWhitespace c) w"
    and r: "rest = [] \<or> isWhitespace (hd rest)"
  shows "splitWhitespace (w @ rest) = w # splitWhitespace rest"
proof -
  obtain c r' where cr: "w = c # r'" using w by (cases w) auto
  have d: "dropWhile isWhitespace (w @ rest) = w @ rest" using w cr by simp
  have t: "takeWhile (\<lambda>x. \<not> isWhitespace x) (w @ rest) = w"
    using w r by (cases rest) (auto simp: list_all_iff takeWhile_append2)
  have dr: "dropWhile (\<lambda>x. \<not> isWhitespace x) (w @ rest) = rest"
    using w r by (cases rest) (auto simp: list_all_iff dropWhile_append2)
  show ?thesis
    by (subst splitWhitespace.simps) (use d t dr cr in \<open>auto split: list.splits\<close>)
qed

lemma sw_single: "w \<noteq> [] \<Longrightarrow> list_all (\<lambda>c. \<not> isWhitespace c) w \<Longrightarrow> splitWhitespace w = [w]"
  using sw_word[of w "[]"] sw_nil[of "[]"] by simp

lemma splitOn_none: "c \<notin> set s \<Longrightarrow> splitOn c s = [s]"
  by (induction s) auto

lemma splitOn_first: "c \<notin> set a \<Longrightarrow> splitOn c (a @ c # rest) = a # splitOn c rest"
  by (induction a) auto

lemma splitFirst_none: "c \<notin> set s \<Longrightarrow> splitFirst c s = (s, None)"
proof -
  assume c: "c \<notin> set s"
  then have d: "dropWhile (\<lambda>x. x \<noteq> c) s = []" and t: "takeWhile (\<lambda>x. x \<noteq> c) s = s" by auto
  show ?thesis unfolding splitFirst_def d t by simp
qed


section \<open>Parsing what format prints\<close>

lemma digit_not_special:
  "isDigit c \<Longrightarrow> c \<noteq> CHR ''.'' \<and> c \<noteq> CHR ''+'' \<and> c \<noteq> CHR ''-'' \<and> c \<noteq> CHR ''v'' \<and> c \<noteq> CHR ''=''"
  by (auto simp: isDigit_def)

lemma showNat_no_special:
  "CHR ''.'' \<notin> set (showNat n)" "CHR ''+'' \<notin> set (showNat n)" "CHR ''-'' \<notin> set (showNat n)"
  using showNat_digits[of n] digit_not_special by (auto simp: list_all_iff)

lemma showNat_hd_digit: "isDigit (hd (showNat n))"
  using showNat_digits[of n] showNat_nonempty[of n] by (cases "showNat n") auto

lemma parseNumber_bound: "parseNumber s = Some n \<Longrightarrow> n \<le> MAX_SAFE_INTEGER"
  by (auto simp: parseNumber_def split: if_splits)

lemma parseMain_bound:
  "parseMain s = Some (a, b, c) \<Longrightarrow> a \<le> MAX_SAFE_INTEGER \<and> b \<le> MAX_SAFE_INTEGER \<and> c \<le> MAX_SAFE_INTEGER"
  by (auto simp: parseMain_def split: list.splits option.splits dest!: parseNumber_bound)

lemma parseFull_bound:
  assumes "parseFull t = Some v"
  shows "major v \<le> MAX_SAFE_INTEGER \<and> minor v \<le> MAX_SAFE_INTEGER \<and> patch v \<le> MAX_SAFE_INTEGER"
  using assms
  by (auto simp: parseFull_def Let_def split: if_splits option.splits prod.splits dest!: parseMain_bound)

lemma parseMain_empty: "parseMain [] = None"
  by (simp add: parseMain_def split: option.splits)

lemma parseFull_chars:
  assumes "parseFull t = Some v"
  shows "t \<noteq> [] \<and> list_all isVersionChar t"
proof -
  have "parseFull [] = None"
    by (simp add: parseFull_def stripV_def splitFirst_def parseMain_empty)
  with assms show ?thesis by (auto simp: parseFull_def split: if_splits)
qed

lemma parseMain_format:
  assumes "a \<le> 9007199254740992" "b \<le> 9007199254740992" "c \<le> 9007199254740992"
  shows "parseMain (showNat a @ ''.'' @ showNat b @ ''.'' @ showNat c) =
     (if a \<le> MAX_SAFE_INTEGER \<and> b \<le> MAX_SAFE_INTEGER \<and> c \<le> MAX_SAFE_INTEGER
      then Some (a, b, c) else None)"
proof -
  have "splitOn CHR ''.'' (showNat a @ CHR ''.'' # showNat b @ CHR ''.'' # showNat c)
      = [showNat a, showNat b, showNat c]"
    by (simp add: splitOn_first splitOn_none showNat_no_special)
  then show ?thesis
    using assms by (simp add: parseMain_def parseNumber_showNat)
qed

lemma stableString_chars: "list_all isVersionChar (stableString a b c)"
  using showNat_digits digit_versionChar
  by (auto simp: stableString_def list_all_iff isVersionChar_def)

lemma stableString_nonempty: "stableString a b c \<noteq> []"
  by (simp add: stableString_def)

lemma stableString_hd: "isDigit (hd (stableString a b c))"
  using showNat_hd_digit[of a] by (simp add: stableString_def showNat_nonempty)

lemma stableString_no_special:
  "CHR ''+'' \<notin> set (stableString a b c)" "CHR ''-'' \<notin> set (stableString a b c)"
  by (simp_all add: stableString_def showNat_no_special)

lemma parseFull_stable:
  assumes "a \<le> 9007199254740992" "b \<le> 9007199254740992" "c \<le> 9007199254740992"
  shows "parseFull (stableString a b c) =
     (if a \<le> MAX_SAFE_INTEGER \<and> b \<le> MAX_SAFE_INTEGER \<and> c \<le> MAX_SAFE_INTEGER
      then Some \<lparr>major = a, minor = b, patch = c, prerelease = [], build = []\<rparr> else None)"
proof -
  have sv: "stripV (stableString a b c) = stableString a b c"
    using stableString_hd[of a b c] stableString_nonempty[of a b c] digit_not_special
    by (cases "stableString a b c") (auto simp: stripV_def)
  have pm: "parseMain (stableString a b c) =
     (if a \<le> MAX_SAFE_INTEGER \<and> b \<le> MAX_SAFE_INTEGER \<and> c \<le> MAX_SAFE_INTEGER
      then Some (a, b, c) else None)"
    unfolding stableString_def by (rule parseMain_format[OF assms])
  show ?thesis
    by (simp add: parseFull_def stableString_chars sv splitFirst_none stableString_no_special pm
        parsePrerelease_def parseBuild_def)
qed

lemma stableString_length:
  assumes "a \<le> 9007199254740992" "b \<le> 9007199254740992" "c \<le> 9007199254740992"
  shows "length (stableString a b c) \<le> MAX_LENGTH"
proof -
  have "length (showNat n) \<le> 16" if "n \<le> 9007199254740992" for n
    using that by (intro showNat_length) simp_all
  from this[OF assms(1)] this[OF assms(2)] this[OF assms(3)]
  show ?thesis by (simp add: stableString_def MAX_LENGTH_def)
qed

lemma parseSemVer_stable:
  assumes "a \<le> 9007199254740992" "b \<le> 9007199254740992" "c \<le> 9007199254740992"
  shows "parseSemVer (stableString a b c) =
     (if a \<le> MAX_SAFE_INTEGER \<and> b \<le> MAX_SAFE_INTEGER \<and> c \<le> MAX_SAFE_INTEGER
      then Some \<lparr>major = a, minor = b, patch = c, prerelease = [], build = []\<rparr> else None)"
  using stableString_length[OF assms] parseFull_stable[OF assms]
  by (simp add: parseSemVer_def trim_versionChars stableString_chars stableString_nonempty)

lemma formatVersion_incPatch:
  "formatVersion (incPatch v) =
     stableString (major v) (minor v) (if prerelease v = [] then patch v + 1 else patch v)"
  by (simp add: formatVersion_def incPatch_def stableString_def)

lemma parseSemVer_Some:
  "parseSemVer s = Some v \<Longrightarrow> length s \<le> MAX_LENGTH \<and> parseFull (trim s) = Some v"
  by (auto simp: parseSemVer_def split: if_splits)

lemma parseSemVer_next:
  assumes "parseSemVer cur = Some c"
  shows "parseSemVer (formatVersion (incPatch c)) =
     (if patch (incPatch c) \<le> MAX_SAFE_INTEGER then Some ((incPatch c)\<lparr>build := []\<rparr>) else None)"
proof -
  from parseFull_bound[of "trim cur" c] parseSemVer_Some[OF assms]
  have b: "major c \<le> MAX_SAFE_INTEGER" "minor c \<le> MAX_SAFE_INTEGER" "patch c \<le> MAX_SAFE_INTEGER"
    by auto
  then have b': "major c \<le> 9007199254740992" "minor c \<le> 9007199254740992"
    "(if prerelease c = [] then patch c + 1 else patch c) \<le> 9007199254740992"
    by (auto simp: MAX_SAFE_INTEGER_def)
  show ?thesis
    unfolding formatVersion_incPatch parseSemVer_stable[OF b']
    using b by (auto simp: incPatch_def)
qed


section \<open>The range of an invalid current version\<close>

lemma space_whitespace: "isWhitespace CHR 0x20"
  by (simp add: isWhitespace_def)

lemma takeWhile_before_space:
  "takeWhile (\<lambda>x. \<not> isWhitespace x) (xs @ CHR 0x20 # w) = takeWhile (\<lambda>x. \<not> isWhitespace x) xs"
  by (induction xs) (simp_all add: space_whitespace)

lemma dropWhile_before_space:
  "dropWhile (\<lambda>x. \<not> isWhitespace x) (xs @ CHR 0x20 # w)
     = dropWhile (\<lambda>x. \<not> isWhitespace x) xs @ CHR 0x20 # w"
  by (induction xs) (simp_all add: space_whitespace)

lemma sw_snoc:
  assumes w: "w \<noteq> []" "list_all (\<lambda>c. \<not> isWhitespace c) w"
  shows "splitWhitespace (s @ CHR 0x20 # w) = splitWhitespace s @ [w]"
proof (induction s rule: splitWhitespace.induct)
  case (1 s)
  show ?case
  proof (cases "dropWhile isWhitespace s")
    case Nil
    then have all: "list_all isWhitespace (s @ [CHR 0x20])"
      by (simp add: list_all_iff space_whitespace)
    have "splitWhitespace ((s @ [CHR 0x20]) @ w) = [w]"
      using sw_ws[OF all, of w] sw_single[OF w] by simp
    moreover have "splitWhitespace s = []" using Nil by (intro sw_nil) (simp add: list_all_iff)
    ultimately show ?thesis by simp
  next
    case (Cons c r)
    let ?t = "CHR 0x20 # w"
    have nw: "\<not> isWhitespace c" using Cons hd_dropWhile[of isWhitespace s] by auto
    have d: "dropWhile isWhitespace (s @ ?t) = (c # r) @ ?t"
      using Cons by (metis dropWhile_append1 dropWhile_eq_Nil_conv list.distinct(1))
    have l: "splitWhitespace (s @ ?t) =
        takeWhile (\<lambda>x. \<not> isWhitespace x) (c # r)
          # splitWhitespace (dropWhile (\<lambda>x. \<not> isWhitespace x) (c # r) @ ?t)"
      by (subst splitWhitespace.simps)
         (simp add: d[simplified] nw takeWhile_before_space dropWhile_before_space)
    have rr: "splitWhitespace s =
        takeWhile (\<lambda>x. \<not> isWhitespace x) (c # r)
          # splitWhitespace (dropWhile (\<lambda>x. \<not> isWhitespace x) (c # r))"
      by (subst splitWhitespace.simps) (simp add: Cons)
    show ?thesis unfolding l rr using 1[OF Cons] by simp
  qed
qed

lemma comparatorTrim_last:
  "\<exists>ys z. comparatorTrim (xs @ [l]) = ys @ [z] \<and> (z = l \<or> (\<exists>w. isOperator w \<and> z = w @ l))"
proof (induction xs rule: comparatorTrim.induct)
  case 1
  then show ?case by simp
next
  case (2 w)
  then show ?case by (cases "isOperator w") auto
next
  case (3 w w2 ws)
  show ?case
  proof (cases "isOperator w")
    case True
    show ?thesis
    proof (cases ws)
      case Nil
      then show ?thesis using True by (auto intro: exI[of _ "[w @ w2]"])
    next
      case (Cons a as)
      from 3(1)[OF True] obtain ys z where
        "comparatorTrim (ws @ [l]) = ys @ [z]" "z = l \<or> (\<exists>w. isOperator w \<and> z = w @ l)" by blast
      then show ?thesis using True
        by (intro exI[of _ "(w @ w2) # ys"] exI[of _ z]) simp
    qed
  next
    case False
    from 3(2)[OF False] obtain ys z where
      "comparatorTrim ((w2 # ws) @ [l]) = ys @ [z]" "z = l \<or> (\<exists>w. isOperator w \<and> z = w @ l)" by blast
    then show ?thesis using False
      by (intro exI[of _ "w # ys"] exI[of _ z]) simp
  qed
qed

lemma those_snoc_None: "those (xs @ [None]) = None"
  by (induction xs) (auto split: option.splits)

lemma parseSemVer_null: "parseSemVer ''null'' = None"
  by (simp add: parseSemVer_def MAX_LENGTH_def parseFull_def trim_def isWhitespace_def
      isVersionChar_def isLetterDashNumber_def stripV_def splitFirst_def parseMain_def
      parseNumber_def isNumericIdentifier_def isDigit_def)

lemma parseSemVer_bad_char: "\<not> list_all isVersionChar (trim s) \<Longrightarrow> parseSemVer s = None"
  by (simp add: parseSemVer_def parseFull_def)

lemma parseComparator_null:
  "parseComparator ''<null'' = None"
  "isOperator w \<Longrightarrow> parseComparator (w @ ''<null'') = None"
proof -
  show "parseComparator ''<null'' = None"
    by (simp add: parseComparator_def splitOperator_def parseSemVer_null)
  have bad: "parseSemVer ''<null'' = None"
    by (rule parseSemVer_bad_char)
       (simp add: trim_def isWhitespace_def isVersionChar_def isLetterDashNumber_def)
  assume "isOperator w"
  then consider "w = ''<''" | "w = ''>''" | "w = ''<=''" | "w = ''>=''" | "w = ''=''"
    by (auto simp: isOperator_def)
  then show "parseComparator (w @ ''<null'') = None"
    by cases (simp_all add: parseComparator_def splitOperator_def bad)
qed

lemma parseRange_invalid:
  assumes "parseSemVer cur = None"
  shows "parseRange (updateRange cur) = None"
proof -
  have u: "updateRange cur = (''>'' @ cur) @ CHR 0x20 # ''<null''"
    using assms by (simp add: updateRange_def semverInc_def)
  have "splitWhitespace (updateRange cur) = splitWhitespace (''>'' @ cur) @ [''<null'']"
    unfolding u by (rule sw_snoc) (simp_all add: isWhitespace_def)
  moreover obtain ys z where
    "comparatorTrim (splitWhitespace (''>'' @ cur) @ [''<null'']) = ys @ [z]"
    "z = ''<null'' \<or> (\<exists>w. isOperator w \<and> z = w @ ''<null'')"
    using comparatorTrim_last by blast
  moreover have "parseComparator z = None"
    using calculation(3) parseComparator_null by auto
  ultimately show ?thesis
    by (simp add: parseRange_def those_snoc_None)
qed


section \<open>The range of a valid current version\<close>

lemma versionChar_not_eq: "isVersionChar c \<Longrightarrow> c \<noteq> CHR ''=''"
  by (auto simp: isVersionChar_def isLetterDashNumber_def)

lemma no_whitespace_versionChars:
  "list_all isVersionChar s \<Longrightarrow> list_all (\<lambda>c. \<not> isWhitespace c) s"
  by (auto simp: list_all_iff versionChar_not_whitespace)

lemma splitOperator_gt:
  assumes "s \<noteq> []" "list_all isVersionChar s"
  shows "splitOperator (''>'' @ s) = (OpGt, s)" "splitOperator (''<'' @ s) = (OpLt, s)"
proof -
  obtain c r where s: "s = c # r" using assms by (cases s) auto
  then have "c \<noteq> CHR ''=''" using assms versionChar_not_eq by auto
  then show "splitOperator (''>'' @ s) = (OpGt, s)" "splitOperator (''<'' @ s) = (OpLt, s)"
    by (simp_all add: splitOperator_def s)
qed

lemma not_operator:
  assumes "s \<noteq> []" "list_all isVersionChar s"
  shows "\<not> isOperator (''>'' @ s)"
proof -
  obtain c r where s: "s = c # r" using assms by (cases s) auto
  then have "c \<noteq> CHR ''=''" using assms versionChar_not_eq by auto
  then show ?thesis by (auto simp: isOperator_def s)
qed

lemma tokens_updateRange:
  assumes core: "core \<noteq> []" "list_all isVersionChar core"
    and nxt: "nxt \<noteq> []" "list_all isVersionChar nxt"
    and ws: "list_all isWhitespace ws1" "list_all isWhitespace ws2"
  shows "comparatorTrim (splitWhitespace (''>'' @ (ws1 @ core @ ws2) @ '' <'' @ nxt))
           = [''>'' @ core, ''<'' @ nxt]"
proof -
  let ?lt = "''<'' @ nxt"
  have lt: "?lt \<noteq> []" "list_all (\<lambda>c. \<not> isWhitespace c) ?lt"
    using no_whitespace_versionChars[OF nxt(2)] by (simp_all add: isWhitespace_def)
  have tail: "splitWhitespace (ws2 @ CHR 0x20 # ?lt) = [?lt]"
  proof -
    have "list_all isWhitespace (ws2 @ [CHR 0x20])" using ws by (simp add: space_whitespace)
    from sw_ws[OF this, of ?lt] sw_single[OF lt] show ?thesis by simp
  qed
  have tailws: "ws2 @ CHR 0x20 # ?lt = [] \<or> isWhitespace (hd (ws2 @ CHR 0x20 # ?lt))"
    using ws by (cases ws2) (auto simp: space_whitespace)
  show ?thesis
  proof (cases ws1)
    case Nil
    have w: "''>'' @ core \<noteq> []" "list_all (\<lambda>c. \<not> isWhitespace c) (''>'' @ core)"
      using no_whitespace_versionChars[OF core(2)] by (simp_all add: isWhitespace_def)
    have "splitWhitespace ((''>'' @ core) @ (ws2 @ CHR 0x20 # ?lt)) = [''>'' @ core, ?lt]"
      using sw_word[OF w tailws] tail by simp
    then show ?thesis using Nil not_operator[OF core] by simp
  next
    case (Cons a as)
    have gt: "''>'' \<noteq> []" "list_all (\<lambda>c. \<not> isWhitespace c) ''>''"
      by (simp_all add: isWhitespace_def)
    have r1: "ws1 @ core @ ws2 @ CHR 0x20 # ?lt = [] \<or> isWhitespace (hd (ws1 @ core @ ws2 @ CHR 0x20 # ?lt))"
      using ws Cons by simp
    have c: "splitWhitespace (core @ (ws2 @ CHR 0x20 # ?lt)) = [core, ?lt]"
      using sw_word[OF core(1) no_whitespace_versionChars[OF core(2)] tailws] tail by simp
    have "splitWhitespace (''>'' @ (ws1 @ core @ ws2 @ CHR 0x20 # ?lt)) = [''>'', core, ?lt]"
      using sw_word[OF gt r1] sw_ws[OF ws(1), of "core @ (ws2 @ CHR 0x20 # ?lt)"] c by simp
    then show ?thesis by (simp add: isOperator_def)
  qed
qed

lemma parseRange_valid:
  assumes v: "parseSemVer cur = Some c"
  shows "parseRange (updateRange cur) =
     (case parseSemVer (formatVersion (incPatch c)) of
        None \<Rightarrow> None
      | Some n \<Rightarrow> Some [(OpGt, c), (OpLt, n)])"
proof -
  let ?core = "trim cur" and ?nxt = "formatVersion (incPatch c)"
  from parseSemVer_Some[OF v] have len: "length cur \<le> MAX_LENGTH" and pf: "parseFull ?core = Some c"
    by auto
  from parseFull_chars[OF pf] have core: "?core \<noteq> []" "list_all isVersionChar ?core" by auto
  obtain ws1 ws2 where dec: "cur = ws1 @ ?core @ ws2"
    and ws: "list_all isWhitespace ws1" "list_all isWhitespace ws2"
    using trim_decompose by blast
  have nxt: "?nxt \<noteq> []" "list_all isVersionChar ?nxt"
    by (simp_all add: formatVersion_incPatch stableString_nonempty stableString_chars)
  have u: "updateRange cur = ''>'' @ (ws1 @ ?core @ ws2) @ '' <'' @ ?nxt"
    using v dec by (simp add: updateRange_def semverInc_def)
  have toks: "comparatorTrim (splitWhitespace (updateRange cur)) = [''>'' @ ?core, ''<'' @ ?nxt]"
    unfolding u by (rule tokens_updateRange[OF core nxt ws])
  have "length ?core \<le> length cur" by (subst (2) dec) simp
  then have "parseSemVer ?core = Some c"
    using len pf by (simp add: parseSemVer_def trim_versionChars[OF core])
  then have c1: "parseComparator (''>'' @ ?core) = Some (OpGt, c)"
    by (simp add: parseComparator_def splitOperator_gt[OF core, simplified])
  have c2: "parseComparator (''<'' @ ?nxt) = map_option (\<lambda>n. (OpLt, n)) (parseSemVer ?nxt)"
    by (simp add: parseComparator_def splitOperator_gt[OF nxt, simplified])
  show ?thesis
    using c1 c2 by (cases "parseSemVer ?nxt") (simp_all add: parseRange_def toks)
qed


section \<open>The order of versions\<close>

lemma compareNumbers_antisym: "compareNumbers b a = - compareNumbers a b"
  by (auto simp: compareNumbers_def)

lemma nonNumeric_IStr: "\<not> isNumericString a \<Longrightarrow> \<exists>s. a = IStr s"
  by (cases a) (auto simp: isNumericString_def)

lemma compareIdentifiers_antisym: "compareIdentifiers b a = - compareIdentifiers a b"
proof (cases "isNumericString a \<and> isNumericString b")
  case True
  then show ?thesis
    using compareNumbers_antisym[of "identNumber b" "identNumber a"]
    by (simp add: compareIdentifiers_def)
next
  case False
  show ?thesis
  proof (cases "isNumericString a \<or> isNumericString b")
    case True
    with False show ?thesis by (auto simp: compareIdentifiers_def)
  next
    case none: False
    then obtain s t where "a = IStr s" "b = IStr t" using nonNumeric_IStr by blast
    then show ?thesis using none by (auto simp: compareIdentifiers_def identString_def)
  qed
qed

lemma compareIdentifiers_chain:
  assumes "compareIdentifiers a b = 1" "0 \<le> compareIdentifiers b c"
  shows "0 \<le> compareIdentifiers a c"
proof (cases "isNumericString a")
  case True
  then have nb: "isNumericString b" using assms(1)
    by (auto simp: compareIdentifiers_def split: if_splits)
  then have nc: "isNumericString c" using assms(2)
    by (auto simp: compareIdentifiers_def split: if_splits)
  show ?thesis using assms True nb nc
    by (auto simp: compareIdentifiers_def compareNumbers_def split: if_splits)
next
  case False
  then obtain s where a: "a = IStr s" using nonNumeric_IStr by blast
  show ?thesis
  proof (cases "isNumericString c")
    case True
    then show ?thesis using False by (auto simp: compareIdentifiers_def)
  next
    case nc: False
    then obtain u where c: "c = IStr u" using nonNumeric_IStr by blast
    have nb: "\<not> isNumericString b" using assms(2) nc
      by (auto simp: compareIdentifiers_def split: if_splits)
    then obtain t where b: "b = IStr t" using nonNumeric_IStr by blast
    show ?thesis using assms False nc nb unfolding a b c
      by (auto simp: compareIdentifiers_def identString_def split: if_splits)
  qed
qed

lemma comparePreLists_antisym: "comparePreLists y x = - comparePreLists x y"
proof (induction x y rule: comparePreLists.induct)
  case (4 a as b bs)
  then show ?case using compareIdentifiers_antisym[of b a] by auto
qed simp_all

lemma comparePreLists_chain:
  "comparePreLists x y = 1 \<Longrightarrow> 0 \<le> comparePreLists y z \<Longrightarrow> 0 \<le> comparePreLists x z"
proof (induction x arbitrary: y z)
  case Nil
  then show ?case by (cases y) auto
next
  case (Cons a as)
  show ?case
  proof (cases y)
    case Nil
    then show ?thesis using Cons.prems by (cases z) auto
  next
    case yc: (Cons b bs)
    show ?thesis
    proof (cases z)
      case Nil
      then show ?thesis by simp
    next
      case zc: (Cons c cs)
      show ?thesis
      proof (cases "a = b")
        case ab: True
        show ?thesis
        proof (cases "b = c")
          case True
          then show ?thesis using Cons ab yc zc by auto
        next
          case False
          then show ?thesis using Cons.prems ab yc zc by auto
        qed
      next
        case ab: False
        then have gt: "compareIdentifiers a b = 1" using Cons.prems yc by simp
        show ?thesis
        proof (cases "b = c")
          case True
          then show ?thesis using gt ab zc by auto
        next
          case bc: False
          then have ge: "0 \<le> compareIdentifiers b c" using Cons.prems yc zc by simp
          have "a \<noteq> c"
          proof
            assume "a = c"
            then have "0 \<le> compareIdentifiers b a" using ge by simp
            then show False using gt compareIdentifiers_antisym[of b a] by simp
          qed
          then show ?thesis using compareIdentifiers_chain[OF gt ge] zc by simp
        qed
      qed
    qed
  qed
qed

lemma comparePre_antisym: "comparePre b a = - comparePre a b"
  using comparePreLists_antisym[of "prerelease b" "prerelease a"]
  by (auto simp: comparePre_def)

lemma comparePre_chain:
  "comparePre x y = 1 \<Longrightarrow> 0 \<le> comparePre y z \<Longrightarrow> 0 \<le> comparePre x z"
  using comparePreLists_chain[of "prerelease x" "prerelease y" "prerelease z"]
  by (auto simp: comparePre_def split: if_splits)

lemma compareMain_antisym: "compareMain b a = - compareMain a b"
  by (auto simp: compareMain_def compareNumbers_def)

lemma compareMain_values: "compareMain a b = - 1 \<or> compareMain a b = 0 \<or> compareMain a b = 1"
  by (auto simp: compareMain_def compareNumbers_def)

lemma compareMain_zero:
  "compareMain a b = 0 \<longleftrightarrow> major a = major b \<and> minor a = minor b \<and> patch a = patch b"
  by (auto simp: compareMain_def compareNumbers_def)

lemma compareMain_chain:
  "compareMain x y = 1 \<Longrightarrow> 0 \<le> compareMain y z \<Longrightarrow> compareMain x z = 1"
  "compareMain x y = 0 \<Longrightarrow> compareMain y z = 1 \<Longrightarrow> compareMain x z = 1"
  "compareMain x y = 0 \<Longrightarrow> compareMain y z = 0 \<Longrightarrow> compareMain x z = 0"
  by (auto simp: compareMain_def compareNumbers_def split: if_splits)

lemma compare_antisym: "compare b a = - compare a b"
  using compareMain_antisym[of b a] comparePre_antisym[of b a] by (auto simp: compare_def)

lemma compare_refl: "compare a a = 0"
  using compare_antisym[of a a] by simp

lemma compare_chain:
  assumes "compare x y = 1" "0 \<le> compare y z"
  shows "0 \<le> compare x z"
proof -
  consider "compareMain x y = 1" | "compareMain x y = 0" "comparePre x y = 1"
    using assms(1) compareMain_values[of x y] by (auto simp: compare_def split: if_splits)
  then show ?thesis
  proof cases
    case 1
    have "0 \<le> compareMain y z"
      using assms(2) compareMain_values[of y z] by (auto simp: compare_def split: if_splits)
    from compareMain_chain(1)[OF 1 this] show ?thesis by (simp add: compare_def)
  next
    case 2
    consider "compareMain y z = 1" | "compareMain y z = 0" "0 \<le> comparePre y z"
      using assms(2) compareMain_values[of y z] by (auto simp: compare_def split: if_splits)
    then show ?thesis
    proof cases
      case 1
      from compareMain_chain(2)[OF 2(1) 1] show ?thesis by (simp add: compare_def)
    next
      case b: 2
      from compareMain_chain(3)[OF 2(1) b(1)] comparePre_chain[OF 2(2) b(2)]
      show ?thesis by (simp add: compare_def)
    qed
  qed
qed

lemma compare_build [simp]: "compare a (b\<lparr>build := x\<rparr>) = compare a b"
  by (simp add: compare_def compareMain_def comparePre_def)

text \<open>Strictly between a version and its next patch version there are prereleases only.\<close>

lemma between_has_prerelease:
  assumes "0 < compare v c" "compare v (incPatch c) < 0"
  shows "prerelease v \<noteq> []"
proof
  assume st: "prerelease v = []"
  show False
  proof (cases "prerelease c = []")
    case True
    then show ?thesis using assms st
      by (auto simp: compare_def compareMain_def comparePre_def compareNumbers_def incPatch_def
          split: if_splits)
  next
    case False
    then show ?thesis using assms st
      by (auto simp: compare_def compareMain_def comparePre_def compareNumbers_def incPatch_def
          split: if_splits)
  qed
qed

lemma incPatch_next_stable:
  "prerelease (incPatch c) = []"
  "compare c (incPatch c) < 0"
  "prerelease s = [] \<Longrightarrow> compare c s < 0 \<Longrightarrow> compare (incPatch c) s \<le> 0"
proof -
  show "prerelease (incPatch c) = []" by (simp add: incPatch_def)
  show "compare c (incPatch c) < 0"
    by (auto simp: compare_def compareMain_def comparePre_def compareNumbers_def incPatch_def)
  show "prerelease s = [] \<Longrightarrow> compare c s < 0 \<Longrightarrow> compare (incPatch c) s \<le> 0"
    by (cases "prerelease c = []")
       (auto simp: compare_def compareMain_def comparePre_def compareNumbers_def incPatch_def
          split: if_splits)
qed


section \<open>The loop of maxSatisfying\<close>

lemma compareNumbers_values:
  "compareNumbers a b = - 1 \<or> compareNumbers a b = 0 \<or> compareNumbers a b = 1"
  by (auto simp: compareNumbers_def)

lemma compareIdentifiers_values:
  "compareIdentifiers a b = - 1 \<or> compareIdentifiers a b = 0 \<or> compareIdentifiers a b = 1"
  using compareNumbers_values[of "identNumber a" "identNumber b"]
  by (auto simp: compareIdentifiers_def)

lemma comparePreLists_values:
  "comparePreLists x y = - 1 \<or> comparePreLists x y = 0 \<or> comparePreLists x y = 1"
proof (induction x y rule: comparePreLists.induct)
  case (4 a as b bs)
  then show ?case using compareIdentifiers_values[of a b] by auto
qed simp_all

lemma compare_values: "compare a b = - 1 \<or> compare a b = 0 \<or> compare a b = 1"
  using compareMain_values[of a b] comparePreLists_values[of "prerelease a" "prerelease b"]
  by (auto simp: compare_def comparePre_def)

lemma rangeTest_parse: "rangeTest comps w incl \<Longrightarrow> \<exists>sw. parseSemVer w = Some sw"
  by (auto simp: rangeTest_def split: option.splits)

lemma isMaxOf_step:
  assumes inv: "isMaxOf comps incl S mx"
  shows "isMaxOf comps incl (insert v S)
     (if rangeTest comps v incl
      then (case (mx, parseSemVer v) of
              (None, Some sv) \<Rightarrow> Some (v, sv)
            | (Some (m, msv), Some sv) \<Rightarrow> if compare msv sv = - 1 then Some (v, sv) else mx
            | _ \<Rightarrow> mx)
      else mx)"
proof (cases "rangeTest comps v incl")
  case False
  then show ?thesis using inv by (auto simp: isMaxOf_def split: option.splits)
next
  case True
  then obtain sv where sv: "parseSemVer v = Some sv" using rangeTest_parse by blast
  show ?thesis
  proof (cases mx)
    case None
    then show ?thesis using inv True sv by (auto simp: isMaxOf_def compare_refl)
  next
    case (Some p)
    obtain m msv where p: "p = (m, msv)" by (cases p)
    from inv Some p have g: "parseSemVer m = Some msv" "m \<in> S" "rangeTest comps m incl"
      and mx: "\<And>w sw. w \<in> S \<Longrightarrow> rangeTest comps w incl \<Longrightarrow> parseSemVer w = Some sw
                  \<Longrightarrow> compare sw msv \<le> 0"
      by (auto simp: isMaxOf_def)
    show ?thesis
    proof (cases "compare msv sv = - 1")
      case lt: True
      have gt: "compare sv msv = 1" using lt compare_antisym[of sv msv] by simp
      have "compare sw sv \<le> 0"
        if "w \<in> S" "rangeTest comps w incl" "parseSemVer w = Some sw" for w sw
      proof -
        have "0 \<le> compare msv sw" using mx[OF that] compare_antisym[of msv sw] by simp
        from compare_chain[OF gt this] show ?thesis using compare_antisym[of sw sv] by simp
      qed
      then show ?thesis using True sv Some p lt
        by (auto simp: isMaxOf_def compare_refl)
    next
      case ge: False
      then have "compare sv msv \<le> 0"
        using compare_values[of msv sv] compare_antisym[of sv msv] by auto
      then show ?thesis using True sv Some p ge g mx
        by (auto simp: isMaxOf_def)
    qed
  qed
qed

lemma isMaxOf_maxLoop:
  "isMaxOf comps incl S mx \<Longrightarrow> isMaxOf comps incl (S \<union> set vs) (maxLoop comps incl mx vs)"
proof (induction vs arbitrary: S mx)
  case Nil
  then show ?case by simp
next
  case (Cons v vs)
  from Cons.IH[OF isMaxOf_step[OF Cons.prems, of v]] show ?case by simp
qed

section \<open>The update range and the returned version\<close>

lemma between_main:
  assumes "0 < compare v c" "compare v (incPatch c) < 0"
  shows "major v = major (incPatch c) \<and> minor v = minor (incPatch c) \<and> patch v = patch (incPatch c)"
  using assms
  by (cases "prerelease c = []")
     (auto simp: compare_def compareMain_def comparePre_def compareNumbers_def incPatch_def
        split: if_splits)

lemma parseSemVer_bound:
  "parseSemVer s = Some v \<Longrightarrow>
     major v \<le> MAX_SAFE_INTEGER \<and> minor v \<le> MAX_SAFE_INTEGER \<and> patch v \<le> MAX_SAFE_INTEGER"
  using parseFull_bound parseSemVer_Some by blast

lemma testSet_updateRange:
  "testSet [(OpGt, c), (OpLt, n)] v True \<longleftrightarrow> 0 < compare v c \<and> compare v n < 0"
  by (simp add: testSet_def cmp_def)

text \<open>The range the function builds, read back: the comparators and what they accept.\<close>

lemma updateRange_meaning:
  assumes c: "parseSemVer cur = Some c"
  shows "(case parseRange (updateRange cur) of
            None \<Rightarrow> \<forall>w sw. parseSemVer w = Some sw \<longrightarrow> \<not> inUpdateRange c sw
          | Some comps \<Rightarrow>
              \<forall>w. rangeTest comps w True \<longleftrightarrow> (\<exists>sw. parseSemVer w = Some sw \<and> inUpdateRange c sw))"
proof (cases "patch (incPatch c) \<le> MAX_SAFE_INTEGER")
  case True
  then have "parseRange (updateRange cur) = Some [(OpGt, c), (OpLt, (incPatch c)\<lparr>build := []\<rparr>)]"
    by (simp add: parseRange_valid[OF c] parseSemVer_next[OF c])
  then show ?thesis
    by (auto simp: rangeTest_def testSet_updateRange inUpdateRange_def split: option.splits)
next
  case False
  then have n: "parseRange (updateRange cur) = None"
    by (simp add: parseRange_valid[OF c] parseSemVer_next[OF c])
  have "\<not> inUpdateRange c sw" if "parseSemVer w = Some sw" for w sw
    using between_main[of sw c] parseSemVer_bound[OF that] False
    by (auto simp: inUpdateRange_def)
  then show ?thesis by (simp add: n)
qed

lemma parseRange_Some_valid:
  "parseRange (updateRange cur) = Some comps \<Longrightarrow> \<exists>c. parseSemVer cur = Some c"
  using parseRange_invalid[of cur] by (cases "parseSemVer cur") auto

lemma rangeTest_updateRange:
  assumes "parseSemVer cur = Some c" "parseRange (updateRange cur) = Some comps"
  shows "rangeTest comps w True \<longleftrightarrow> (\<exists>sw. parseSemVer w = Some sw \<and> inUpdateRange c sw)"
  using updateRange_meaning[OF assms(1)] assms(2) by simp

lemma datedSuffix_nonempty: "datedSuffix v \<Longrightarrow> v \<noteq> []"
  by (auto simp: datedSuffix_def)

lemma semverValid_iff: "semverValid v \<noteq> None \<longleftrightarrow> parseSemVer v \<noteq> None"
  by (simp add: semverValid_def)

text \<open>What a returned version is, in terms of the listing.\<close>

lemma checkForConfigUpdates_Some:
  assumes "checkForConfigUpdates response cur = Inr (Some r)"
  shows "\<exists>c comps sr. parseSemVer cur = Some c \<and> parseRange (updateRange cur) = Some comps
     \<and> parseSemVer r = Some sr \<and> datedSuffix r \<and> rangeTest comps r True"
proof -
  from assms obtain registry where resp: "response = Some registry"
    by (cases response) (auto simp: checkForConfigUpdates_def)
  let ?all = "filter datedSuffix (filter (\<lambda>v. semverValid v \<noteq> None)
      (objectKeys (getProp (Some registry) ''versions'')))"
  have eq: "semverMaxSatisfying ?all (updateRange cur) True = Some r"
    using assms resp
    by (auto simp: checkForConfigUpdates_def split: option.splits if_splits)
  then obtain comps where pr: "parseRange (updateRange cur) = Some comps"
    by (auto simp: semverMaxSatisfying_def split: option.splits)
  with eq obtain sr where ml: "maxLoop comps True None ?all = Some (r, sr)"
    by (auto simp: semverMaxSatisfying_def)
  have "isMaxOf comps True {} None" by (simp add: isMaxOf_def)
  from isMaxOf_maxLoop[OF this, of ?all] ml
  have "isMaxOf comps True (set ?all) (Some (r, sr))" by simp
  then have "parseSemVer r = Some sr" "datedSuffix r" "rangeTest comps r True"
    by (auto simp: isMaxOf_def)
  moreover obtain c where "parseSemVer cur = Some c" using parseRange_Some_valid[OF pr] by blast
  ultimately show ?thesis using pr by blast
qed


section \<open>The example of the spec, evaluated\<close>

lemmas version_eval =
  parseSemVer_def MAX_LENGTH_def trim_def isWhitespace_def parseFull_def isVersionChar_def
  isLetterDashNumber_def stripV_def splitFirst_def parseMain_def parseNumber_def
  isNumericIdentifier_def isDigit_def decimal_def digitVal_def toNumber_def MAX_SAFE_INTEGER_def
  parsePrerelease_def parsePrereleaseId_def isNonNumericIdentifier_def parseBuild_def
  isBuildIdentifier_def Let_def

lemma parse_7_2_4:
  "parseSemVer ''7.2.4'' = Some \<lparr>major = 7, minor = 2, patch = 4, prerelease = [], build = []\<rparr>"
  by (simp add: version_eval)

lemma parse_7_2_5_a:
  "parseSemVer ''7.2.5-20200101''
     = Some \<lparr>major = 7, minor = 2, patch = 5, prerelease = [INum 20200101], build = []\<rparr>"
  by (simp add: version_eval)

lemma parse_7_2_5_b:
  "parseSemVer ''7.2.5-20200424''
     = Some \<lparr>major = 7, minor = 2, patch = 5, prerelease = [INum 20200424], build = []\<rparr>"
  by (simp add: version_eval)

lemma parse_7_3_0:
  "parseSemVer ''7.3.0'' = Some \<lparr>major = 7, minor = 3, patch = 0, prerelease = [], build = []\<rparr>"
  by (simp add: version_eval)

lemma dated_examples:
  "datedSuffix ''7.2.5-20200101''" "datedSuffix ''7.2.5-20200424''" "\<not> datedSuffix ''7.3.0''"
  by (simp_all add: datedSuffix_def isDigit_def)

lemmas compare_eval =
  compare_def compareMain_def comparePre_def compareNumbers_def compareIdentifiers_def
  isNumericString_def identNumber_def incPatch_def

lemma example_range:
  "parseRange (updateRange ''7.2.4'')
     = Some [(OpGt, \<lparr>major = 7, minor = 2, patch = 4, prerelease = [], build = []\<rparr>),
             (OpLt, \<lparr>major = 7, minor = 2, patch = 5, prerelease = [], build = []\<rparr>)]"
proof -
  let ?c = "\<lparr>major = 7, minor = 2, patch = 4, prerelease = [], build = []\<rparr>"
  have "parseSemVer (formatVersion (incPatch ?c)) = Some ((incPatch ?c)\<lparr>build := []\<rparr>)"
    unfolding parseSemVer_next[OF parse_7_2_4] by (simp add: incPatch_def MAX_SAFE_INTEGER_def)
  then show ?thesis
    unfolding parseRange_valid[OF parse_7_2_4] by (simp add: incPatch_def)
qed

lemma example_result:
  "checkForConfigUpdates (Some exampleRegistry) ''7.2.4'' = Inr (Some ''7.2.5-20200424'')"
  by (simp add: checkForConfigUpdates_def exampleRegistry_def isObject_def objectKeys_def
      semverValid_def parse_7_2_5_a parse_7_2_5_b parse_7_3_0 dated_examples
      semverMaxSatisfying_def example_range rangeTest_def testSet_def cmp_def compare_eval)

section \<open>Claims about checkForConfigUpdates\<close>

text \<open>
  Claim C5. For a valid current version and a registry document with a version listing,
  whenever entries of the listing qualify (valid version, ending in a dash and eight
  digits, strictly inside the update range), and so in particular whenever two or more
  do, \<open>checkForConfigUpdates\<close> returns one of them, and no qualifying entry is greater
  in the order of \<open>compare\<close>, which takes the prerelease into account. With the current
  version 7.2.4 and the entries 7.2.5-20200101, 7.2.5-20200424 and 7.3.0 it returns
  7.2.5-20200424.
\<close>

theorem checkForConfigUpdates_returns_maximum:
  assumes obj: "isObject (Some registry)"
    and vs: "getProp (Some registry) ''versions'' = Some (JObject versions)"
    and c: "parseSemVer currentVersion = Some c"
    and q: "\<exists>v \<in> set (map fst versions). qualifies c v"
  shows "\<exists>r sr. checkForConfigUpdates (Some registry) currentVersion = Inr (Some r)
      \<and> r \<in> set (map fst versions) \<and> qualifies c r \<and> parseSemVer r = Some sr
      \<and> (\<forall>w \<in> set (map fst versions). \<forall>sw. qualifies c w \<and> parseSemVer w = Some sw
            \<longrightarrow> compare sw sr \<le> 0)"
proof -
  let ?all = "filter datedSuffix (filter (\<lambda>v. semverValid v \<noteq> None) (map fst versions))"
  from q obtain v0 sv0 where v0: "v0 \<in> set (map fst versions)" "datedSuffix v0"
    "parseSemVer v0 = Some sv0" "inUpdateRange c sv0"
    by (auto simp: qualifies_def)
  obtain comps where pr: "parseRange (updateRange currentVersion) = Some comps"
    using updateRange_meaning[OF c] v0 by (cases "parseRange (updateRange currentVersion)") auto
  note rt = rangeTest_updateRange[OF c pr]
  have q_iff: "w \<in> set ?all \<and> rangeTest comps w True \<longleftrightarrow> w \<in> set (map fst versions) \<and> qualifies c w" for w
    using rt[of w] by (auto simp: qualifies_def semverValid_def)
  have "isMaxOf comps True {} None" by (simp add: isMaxOf_def)
  from isMaxOf_maxLoop[OF this, of ?all]
  have inv: "isMaxOf comps True (set ?all) (maxLoop comps True None ?all)" by simp
  have "v0 \<in> set ?all \<and> rangeTest comps v0 True" using q_iff[of v0] v0 by (auto simp: qualifies_def)
  then obtain r sr where ml: "maxLoop comps True None ?all = Some (r, sr)"
    using inv by (cases "maxLoop comps True None ?all") (auto simp: isMaxOf_def)
  from inv ml have g: "parseSemVer r = Some sr" "r \<in> set ?all" "rangeTest comps r True"
    and mx: "\<And>w sw. w \<in> set ?all \<Longrightarrow> rangeTest comps w True \<Longrightarrow> parseSemVer w = Some sw
                \<Longrightarrow> compare sw sr \<le> 0"
    by (auto simp: isMaxOf_def)
  have rq: "r \<in> set (map fst versions)" "qualifies c r" using q_iff[of r] g by auto
  then have "r \<noteq> []" using datedSuffix_nonempty by (auto simp: qualifies_def)
  then have res: "checkForConfigUpdates (Some registry) currentVersion = Inr (Some r)"
    using obj vs pr ml
    by (simp add: checkForConfigUpdates_def isObject_def objectKeys_def semverMaxSatisfying_def)
  have "compare sw sr \<le> 0"
    if "w \<in> set (map fst versions)" "qualifies c w" "parseSemVer w = Some sw" for w sw
    using mx[of w sw] q_iff[of w] that by blast
  with res rq g(1) show ?thesis by blast
qed

theorem checkForConfigUpdates_returns_maximum_witness:
  "checkForConfigUpdates (Some exampleRegistry) ''7.2.4'' = Inr (Some ''7.2.5-20200424'')
   \<and> qualifies \<lparr>major = 7, minor = 2, patch = 4, prerelease = [], build = []\<rparr> ''7.2.5-20200101''
   \<and> qualifies \<lparr>major = 7, minor = 2, patch = 4, prerelease = [], build = []\<rparr> ''7.2.5-20200424''
   \<and> compare \<lparr>major = 7, minor = 2, patch = 5, prerelease = [INum 20200101], build = []\<rparr>
               \<lparr>major = 7, minor = 2, patch = 5, prerelease = [INum 20200424], build = []\<rparr> \<le> 0"
proof -
  let ?c = "\<lparr>major = 7, minor = 2, patch = 4, prerelease = [], build = []\<rparr>"
  let ?vs = "[(''7.2.5-20200101'', JObject []), (''7.2.5-20200424'', JObject []), (''7.3.0'', JObject [])]"
  have obj: "isObject (Some exampleRegistry)"
    by (simp add: isObject_def exampleRegistry_def)
  have vs: "getProp (Some exampleRegistry) ''versions'' = Some (JObject ?vs)"
    by (simp add: exampleRegistry_def)
  have qa: "qualifies ?c ''7.2.5-20200101''" and qb: "qualifies ?c ''7.2.5-20200424''"
    by (simp_all add: qualifies_def dated_examples parse_7_2_5_a parse_7_2_5_b inUpdateRange_def
        compare_eval)
  have q: "\<exists>v \<in> set (map fst ?vs). qualifies ?c v" using qa by simp
  from checkForConfigUpdates_returns_maximum[OF obj vs parse_7_2_4 q] obtain r sr where
    res: "checkForConfigUpdates (Some exampleRegistry) ''7.2.4'' = Inr (Some r)"
    and sr: "parseSemVer r = Some sr"
    and mx: "\<forall>w \<in> set (map fst ?vs). \<forall>sw. qualifies ?c w \<and> parseSemVer w = Some sw
               \<longrightarrow> compare sw sr \<le> 0"
    by blast
  from res have r: "r = ''7.2.5-20200424''" by (simp add: example_result)
  from sr have sr': "sr = \<lparr>major = 7, minor = 2, patch = 5, prerelease = [INum 20200424], build = []\<rparr>"
    unfolding r by (simp add: parse_7_2_5_b)
  from mx qa have "compare \<lparr>major = 7, minor = 2, patch = 5, prerelease = [INum 20200101], build = []\<rparr> sr \<le> 0"
    using parse_7_2_5_a by simp
  with res r sr' qa qb show ?thesis by simp
qed

text \<open>
  Claim C6. For a valid current version, the range text that \<open>checkForConfigUpdates\<close>
  builds accepts, with prereleases included, exactly the valid versions strictly
  greater than the current version and strictly less than the version \<open>inc\<close> returns for
  it; that version has no prerelease, is greater than the current one, and no version
  without prerelease lies strictly between the two.
\<close>

theorem updateRange_is_open_interval:
  assumes c: "parseSemVer currentVersion = Some c"
    and v: "parseSemVer version = Some v"
  shows "(satisfies version (updateRange currentVersion) True
            \<longleftrightarrow> 0 < compare v c \<and> compare v (incPatch c) < 0)
       \<and> semverInc currentVersion = Some (formatVersion (incPatch c))
       \<and> prerelease (incPatch c) = []
       \<and> compare c (incPatch c) < 0
       \<and> (\<forall>s. prerelease s = [] \<and> compare c s < 0 \<longrightarrow> compare (incPatch c) s \<le> 0)"
proof -
  have "satisfies version (updateRange currentVersion) True \<longleftrightarrow> inUpdateRange c v"
    using updateRange_meaning[OF c] v
    by (auto simp: satisfies_def split: option.splits)
  moreover have "semverInc currentVersion = Some (formatVersion (incPatch c))"
    using c by (simp add: semverInc_def)
  ultimately show ?thesis
    using incPatch_next_stable[where c = c] by (auto simp: inUpdateRange_def)
qed

theorem updateRange_is_open_interval_witness:
  "satisfies ''7.2.5-20200424'' (updateRange ''7.2.4'') True
   \<and> \<not> satisfies ''7.2.4'' (updateRange ''7.2.4'') True
   \<and> \<not> satisfies ''7.3.0'' (updateRange ''7.2.4'') True
   \<and> semverInc ''7.2.4'' = Some ''7.2.5''"
proof -
  let ?c = "\<lparr>major = 7, minor = 2, patch = 4, prerelease = [], build = []\<rparr>"
  note t = updateRange_is_open_interval[OF parse_7_2_4]
  have f: "formatVersion (incPatch ?c) = ''7.2.5''"
    by (simp add: formatVersion_def incPatch_def showNat.simps digitChar_def)
  have a: "satisfies ''7.2.5-20200424'' (updateRange ''7.2.4'') True"
    using t[OF parse_7_2_5_b] by (simp add: compare_eval)
  have b: "\<not> satisfies ''7.2.4'' (updateRange ''7.2.4'') True"
    using t[OF parse_7_2_4] by (simp add: compare_eval)
  have c: "\<not> satisfies ''7.3.0'' (updateRange ''7.2.4'') True"
    using t[OF parse_7_3_0] by (simp add: compare_eval)
  have d: "semverInc ''7.2.4'' = Some ''7.2.5''"
    using t[OF parse_7_2_4] f by simp
  from a b c d show ?thesis by blast
qed

text \<open>
  Claim C7. Whatever the registry answers and whatever the current version is, a
  version that \<open>checkForConfigUpdates\<close> returns ends in a dash and eight digits and has a
  prerelease: it is not a stable release.
\<close>

theorem update_is_dated_prerelease:
  assumes "checkForConfigUpdates response currentVersion = Inr (Some r)"
  shows "datedSuffix r \<and> (\<exists>sr. parseSemVer r = Some sr \<and> prerelease sr \<noteq> [])"
proof -
  from checkForConfigUpdates_Some[OF assms] obtain c comps sr where
    c: "parseSemVer currentVersion = Some c" and
    pr: "parseRange (updateRange currentVersion) = Some comps" and
    r: "parseSemVer r = Some sr" "datedSuffix r" "rangeTest comps r True"
    by blast
  from rangeTest_updateRange[OF c pr, of r] r have "inUpdateRange c sr" by simp
  then have "prerelease sr \<noteq> []"
    using between_has_prerelease[of sr c] by (simp add: inUpdateRange_def)
  with r show ?thesis by blast
qed

theorem update_is_dated_prerelease_witness:
  "checkForConfigUpdates (Some exampleRegistry) ''7.2.4'' = Inr (Some ''7.2.5-20200424'')
   \<and> datedSuffix ''7.2.5-20200424''
   \<and> (\<exists>sr. parseSemVer ''7.2.5-20200424'' = Some sr \<and> prerelease sr \<noteq> [])"
  using example_result update_is_dated_prerelease[OF example_result] by blast


end
